theory Spec2Isabelle
  imports Main "HOL-Library.Char_ord" "HOL-Library.List_Lexorder" "HOL-Library.Sublist"
begin

section \<open>Strings as Python and SQLite see them\<close>

text \<open>
  A \<open>string\<close> is a sequence of characters; a character stands for a code point below 256.
  \<open>str.strip()\<close> without an argument removes the leading and trailing characters for which
  \<open>str.isspace()\<close> holds: in that range TAB, LF, VT, FF, CR, the separators FS, GS, RS, US,
  the blank, NEL and the no-break space.
\<close>

definition py_isspace :: "char \<Rightarrow> bool" where
  "py_isspace c = (of_char c \<in> set [9, 10, 11, 12, 13, 28, 29, 30, 31, 32, 133, 160 :: nat])"

definition lstrip :: "string \<Rightarrow> string" where
  "lstrip s = dropWhile py_isspace s"

definition rstrip :: "string \<Rightarrow> string" where
  "rstrip s = rev (dropWhile py_isspace (rev s))"

definition strip :: "string \<Rightarrow> string" where
  "strip s = rstrip (lstrip s)"

text \<open>
  SQLite's \<open>LIKE\<close> without an \<open>ESCAPE\<close> clause and with the default
  \<open>case_sensitive_like = OFF\<close> (\<open>get_db\<close> only sets \<open>foreign_keys\<close>). The function reads
  pattern and text as C strings, so each ends at its first NUL character. In what is left,
  \<open>%\<close> matches any run of characters, \<open>_\<close> matches one character, and any other
  character matches itself, the letters A to Z and a to z without regard to case. Before
  it compares, the function refuses a pattern of more than 50000 bytes (counted in UTF-8,
  in full, also behind a NUL) with the error "LIKE or GLOB pattern too complex".
\<close>

definition ascii_lower :: "char \<Rightarrow> char" where
  "ascii_lower c =
     (let n = (of_char c :: nat) in if 65 \<le> n \<and> n \<le> 90 then char_of (n + 32) else c)"

fun pattern_compare :: "string \<Rightarrow> string \<Rightarrow> bool" where
  "pattern_compare [] s = (s = [])"
| "pattern_compare (p # ps) [] = (p = CHR ''%'' \<and> pattern_compare ps [])"
| "pattern_compare (p # ps) (c # cs) =
     (if p = CHR ''%'' then pattern_compare ps (c # cs) \<or> pattern_compare (p # ps) cs
      else (p = CHR ''_'' \<or> ascii_lower p = ascii_lower c) \<and> pattern_compare ps cs)"

definition c_string :: "string \<Rightarrow> string" where
  "c_string s = takeWhile (\<lambda>c. c \<noteq> CHR 0x00) s"

definition sql_like :: "string \<Rightarrow> string \<Rightarrow> bool" where
  "sql_like pattern text = pattern_compare (c_string pattern) (c_string text)"

definition utf8_length :: "string \<Rightarrow> nat" where
  "utf8_length s = sum_list (map (\<lambda>c. if of_char c < (128 :: nat) then 1 else 2) s)"

definition pattern_too_complex :: "string \<Rightarrow> bool" where
  "pattern_too_complex pattern = (50000 < utf8_length pattern)"

text \<open>Containment of \<open>q\<close> in \<open>s\<close> as a run of consecutive characters, up to ASCII letter case.\<close>

fun ci_prefix :: "string \<Rightarrow> string \<Rightarrow> bool" where
  "ci_prefix [] s = True"
| "ci_prefix (p # ps) [] = False"
| "ci_prefix (p # ps) (c # cs) = (ascii_lower p = ascii_lower c \<and> ci_prefix ps cs)"

fun ci_contains :: "string \<Rightarrow> string \<Rightarrow> bool" where
  "ci_contains q [] = ci_prefix q []"
| "ci_contains q (c # cs) = (ci_prefix q (c # cs) \<or> ci_contains q cs)"

text \<open>The same with exact comparison of characters: Python's \<open>q in s\<close>.\<close>

fun contains :: "string \<Rightarrow> string \<Rightarrow> bool" where
  "contains q [] = (q = [])"
| "contains q (c # cs) = (prefix q (c # cs) \<or> contains q cs)"

section \<open>The database\<close>

text \<open>
  Modelled from the spec: \<open>schema.sql\<close> is not part of the sources. The specification gives
  the tables \<open>users(id, username UNIQUE, password_hash, created_at)\<close> and
  \<open>todos(id, user_id REFERENCES users(id), title, description, due_date, done, created_at)\<close>;
  \<open>id\<close> is the integer primary key that SQLite assigns on insertion (one more than the
  largest in the table, 1 for an empty table). Columns carry their table's name, since the
  two tables share column names.
\<close>

record users_row =
  users_id :: int
  users_username :: string
  users_password_hash :: string
  users_created_at :: string

record todos_row =
  todos_id :: int
  todos_user_id :: int
  todos_title :: string
  todos_description :: string
  todos_due_date :: "string option"
  todos_done :: int
  todos_created_at :: string

record database =
  users :: "users_row list"
  todos :: "todos_row list"

text \<open>
  An integer bound to a statement's parameter must fit SQLite's signed 64-bit integers;
  for any other the \<open>sqlite3\<close> module raises \<open>OverflowError\<close> before the statement runs.
\<close>

definition sqlite_int_ok :: "int \<Rightarrow> bool" where
  "sqlite_int_ok i = (- (2 ^ 63) \<le> i \<and> i < 2 ^ 63)"

definition next_rowid :: "int list \<Rightarrow> int" where
  "next_rowid ids = (if ids = [] then 1 else Max (set ids) + 1)"

text \<open>
  The invariants of a database that the schema and the program maintain: primary keys are
  unique and positive, user names are unique, and \<open>done\<close> is 0 or 1. The empty database
  has them and every view preserves them (section \<open>Invariants\<close>).
\<close>

definition db_ok :: "database \<Rightarrow> bool" where
  "db_ok db =
     (distinct (map users_id (users db)) \<and> distinct (map users_username (users db)) \<and>
      list_all (\<lambda>r. 0 < users_id r) (users db) \<and>
      distinct (map todos_id (todos db)) \<and> list_all (\<lambda>r. 0 < todos_id r) (todos db) \<and>
      list_all (\<lambda>r. todos_done r = 0 \<or> todos_done r = 1) (todos db))"

text \<open>
  \<open>ORDER BY done, created_at DESC\<close>: \<open>done\<close> ascending as integers, then \<open>created_at\<close>
  descending as text under the BINARY collation, which is the lexicographic order of the
  characters. SQL leaves the order of rows with equal keys open; the model keeps them in
  table order.
\<close>

definition listed_before :: "todos_row \<Rightarrow> todos_row \<Rightarrow> bool" where
  "listed_before a b =
     (todos_done a < todos_done b \<or>
      (todos_done a = todos_done b \<and> todos_created_at b \<le> todos_created_at a))"

fun order_insert :: "todos_row \<Rightarrow> todos_row list \<Rightarrow> todos_row list" where
  "order_insert x [] = [x]"
| "order_insert x (y # ys) =
     (if listed_before x y then x # y # ys else y # order_insert x ys)"

fun order_by :: "todos_row list \<Rightarrow> todos_row list" where
  "order_by [] = []"
| "order_by (x # xs) = order_insert x (order_by xs)"

section \<open>Requests, sessions and responses\<close>

datatype http_method = GET | POST

record request =
  request_method :: http_method
  form :: "string \<rightharpoonup> string"
  args :: "string \<rightharpoonup> string"
  path :: string

definition form_get :: "request \<Rightarrow> string \<Rightarrow> string" where
  "form_get req k = (case form req k of None \<Rightarrow> [] | Some v \<Rightarrow> v)"

definition args_get :: "request \<Rightarrow> string \<Rightarrow> string" where
  "args_get req k = (case args req k of None \<Rightarrow> [] | Some v \<Rightarrow> v)"

text \<open>
  The Flask session is a dictionary. The application reads and writes the keys \<open>user_id\<close>
  and \<open>username\<close>; \<open>session_other\<close> holds whatever else the dictionary carries. \<open>flash\<close>
  queues its message in the session as well (Flask keeps the queue under a reserved key of
  the same dictionary), so \<open>session.clear()\<close> empties the queue too.
\<close>

record session =
  session_user_id :: "int option"
  session_username :: "string option"
  session_other :: "string \<rightharpoonup> string"
  session_flashes :: "(string \<times> string) list"

definition session_clear :: session where
  "session_clear =
     \<lparr>session_user_id = None, session_username = None, session_other = Map.empty,
      session_flashes = []\<rparr>"

definition flash :: "string \<Rightarrow> string \<Rightarrow> session \<Rightarrow> session" where
  "flash message category s = s\<lparr>session_flashes := session_flashes s @ [(category, message)]\<rparr>"

datatype url =
    Url_register
  | Url_login "string option"
  | Url_dashboard
  | Url_add_task
  | Url_edit_task int
  | Url_next string

datatype response =
    Redirect url
  | Render_register
  | Render_login
  | Render_dashboard "todos_row list" string
  | Render_task_form string "todos_row option"
  | Abort_404
  | Raise_IntegrityError
  | Raise_OverflowError
  | Raise_OperationalError

record outcome =
  resp :: response
  sess :: session
  db_after :: database

section \<open>Creation times\<close>

text \<open>
  \<open>datetime.utcnow()\<close> is a calendar date and a time of day down to the microsecond;
  Python admits the years 1 to 9999. \<open>isoformat()\<close> writes it as
  \<open>YYYY-MM-DDTHH:MM:SS\<close>, followed by \<open>.ffffff\<close> when the microseconds are not zero,
  every field padded with zeros to its width. \<open>time_fields\<close> lists the fields from the most
  significant; their lexicographic order is the order of time.
\<close>

record datetime =
  year :: nat
  month :: nat
  day :: nat
  hour :: nat
  minute :: nat
  second :: nat
  microsecond :: nat

definition valid_datetime :: "datetime \<Rightarrow> bool" where
  "valid_datetime d =
     (1 \<le> year d \<and> year d \<le> 9999 \<and> 1 \<le> month d \<and> month d \<le> 12 \<and>
      1 \<le> day d \<and> day d \<le> 31 \<and> hour d < 24 \<and> minute d < 60 \<and> second d < 60 \<and>
      microsecond d < 1000000)"

definition digit :: "nat \<Rightarrow> char" where
  "digit k = ''0123456789'' ! k"

fun zero_padded :: "nat \<Rightarrow> nat \<Rightarrow> string" where
  "zero_padded 0 x = []"
| "zero_padded (Suc n) x = zero_padded n (x div 10) @ [digit (x mod 10)]"

definition isoformat :: "datetime \<Rightarrow> string" where
  "isoformat d =
     zero_padded 4 (year d) @ ''-'' @ zero_padded 2 (month d) @ ''-'' @ zero_padded 2 (day d) @
     ''T'' @ zero_padded 2 (hour d) @ '':'' @ zero_padded 2 (minute d) @ '':'' @
     zero_padded 2 (second d) @
     (if microsecond d = 0 then [] else ''.'' @ zero_padded 6 (microsecond d))"

definition time_fields :: "datetime \<Rightarrow> nat list" where
  "time_fields d = [year d, month d, day d, hour d, minute d, second d, microsecond d]"

section \<open>What the program takes from outside\<close>

text \<open>
  \<open>werkzeug.security\<close> is a library: \<open>generate_password_hash\<close> draws a random salt and
  returns a text with the salt and a digest, \<open>check_password_hash\<close> recomputes the digest
  of a candidate under the stored salt and compares. Both are parameters of the model, as
  are the salt drawn and the reading of \<open>datetime.utcnow()\<close> at the request.
\<close>

record env =
  generate_password_hash :: "string \<Rightarrow> string \<Rightarrow> string"
  check_password_hash :: "string \<Rightarrow> string \<Rightarrow> bool"
  salt :: string
  utcnow :: datetime

text \<open>
  What is assumed of the library where a theorem needs it: a stored hash accepts the
  password it was made from. That it accepts no other password is not assumed, and is not
  so: PBKDF2 and scrypt, the methods of \<open>werkzeug\<close>, use the password as the key of an HMAC,
  and an HMAC pads a key shorter than its block of 64 bytes with zero bytes, so a password
  and the same password followed by NUL characters have the same digest.
\<close>

definition accepts_own_password :: "env \<Rightarrow> bool" where
  "accepts_own_password e =
     (\<forall>s p. check_password_hash e (generate_password_hash e s p) p)"

section \<open>Auth helpers\<close>

definition create_user :: "env \<Rightarrow> database \<Rightarrow> string \<Rightarrow> string \<Rightarrow> bool \<times> database" where
  "create_user e db username password =
     (if username \<in> set (map users_username (users db)) then (False, db)
      else (True, db\<lparr>users := users db @
              [\<lparr>users_id = next_rowid (map users_id (users db)),
                users_username = username,
                users_password_hash = generate_password_hash e (salt e) password,
                users_created_at = isoformat (utcnow e)\<rparr>]\<rparr>))"

definition authenticate :: "env \<Rightarrow> database \<Rightarrow> string \<Rightarrow> string \<Rightarrow> int option" where
  "authenticate e db username password =
     (case find (\<lambda>r. users_username r = username) (users db) of
        None \<Rightarrow> None
      | Some row \<Rightarrow>
          if check_password_hash e (users_password_hash row) password
          then Some (users_id row) else None)"

definition login_required ::
  "(int \<Rightarrow> request \<Rightarrow> session \<Rightarrow> database \<Rightarrow> outcome) \<Rightarrow>
   request \<Rightarrow> session \<Rightarrow> database \<Rightarrow> outcome" where
  "login_required fn req s db =
     (case session_user_id s of
        None \<Rightarrow> \<lparr>resp = Redirect (Url_login (Some (path req))), sess = s, db_after = db\<rparr>
      | Some uid \<Rightarrow> fn uid req s db)"

section \<open>Routes: auth\<close>

definition register :: "env \<Rightarrow> request \<Rightarrow> session \<Rightarrow> database \<Rightarrow> outcome" where
  "register e req s db =
     (if request_method req = POST then
        (let username = strip (form_get req ''username'');
             password = form_get req ''password'';
             password2 = form_get req ''password2''
         in if username = [] \<or> password = [] then
              \<lparr>resp = Redirect Url_register,
               sess = flash ''Username and password are required.'' ''danger'' s,
               db_after = db\<rparr>
            else if password \<noteq> password2 then
              \<lparr>resp = Redirect Url_register,
               sess = flash ''Passwords do not match.'' ''danger'' s, db_after = db\<rparr>
            else (case create_user e db username password of
                    (ok, db') \<Rightarrow>
                      if \<not> ok then
                        \<lparr>resp = Redirect Url_register,
                         sess = flash ''Username already taken.'' ''danger'' s, db_after = db'\<rparr>
                      else
                        \<lparr>resp = Redirect (Url_login None),
                         sess = flash ''Account created. Please login.'' ''success'' s,
                         db_after = db'\<rparr>))
      else \<lparr>resp = Render_register, sess = s, db_after = db\<rparr>)"

definition login :: "env \<Rightarrow> request \<Rightarrow> session \<Rightarrow> database \<Rightarrow> outcome" where
  "login e req s db =
     (if request_method req = POST then
        (let username = strip (form_get req ''username'');
             password = form_get req ''password''
         in case authenticate e db username password of
              Some user_id \<Rightarrow>
                if user_id \<noteq> 0 then
                  \<lparr>resp = Redirect (case args req ''next'' of
                                      None \<Rightarrow> Url_dashboard
                                    | Some n \<Rightarrow> if n = [] then Url_dashboard else Url_next n),
                   sess = flash ''Logged in successfully.'' ''success''
                            (session_clear\<lparr>session_user_id := Some user_id,
                                            session_username := Some username\<rparr>),
                   db_after = db\<rparr>
                else
                  \<lparr>resp = Redirect (Url_login None),
                   sess = flash ''Invalid username or password.'' ''danger'' s, db_after = db\<rparr>
            | None \<Rightarrow>
                \<lparr>resp = Redirect (Url_login None),
                 sess = flash ''Invalid username or password.'' ''danger'' s, db_after = db\<rparr>)
      else \<lparr>resp = Render_login, sess = s, db_after = db\<rparr>)"

definition logout :: "session \<Rightarrow> database \<Rightarrow> outcome" where
  "logout s db =
     \<lparr>resp = Redirect (Url_login None), sess = flash ''Logged out.'' ''info'' session_clear,
      db_after = db\<rparr>"

section \<open>Todo CRUD and search\<close>

text \<open>
  The body of each guarded view takes \<open>session["user_id"]\<close> from \<open>login_required\<close>, which
  has found it present. The task id of a route is any non-negative integer of the URL;
  the views that bind it raise \<open>OverflowError\<close> when it does not fit 64 bits, before any
  statement runs. The templates are not part of the sources; rendering is taken to
  leave session and database as they are. Which HTTP methods reach a view is decided by
  the route table before the view runs; the views are modelled as the functions they are,
  and read the method only where the source does.
\<close>

definition select_todos :: "int \<Rightarrow> string \<Rightarrow> database \<Rightarrow> todos_row list" where
  "select_todos uid search db =
     (if search \<noteq> [] then
        (let like = ''%'' @ search @ ''%''
         in order_by (filter (\<lambda>r. todos_user_id r = uid \<and>
                (sql_like like (todos_title r) \<or> sql_like like (todos_description r)))
              (todos db)))
      else order_by (filter (\<lambda>r. todos_user_id r = uid) (todos db)))"

text \<open>
  The engine tests \<open>user_id = ?\<close> first and calls \<open>LIKE\<close> only on the rows that pass, so
  the search raises when its pattern is too long and the user has a row at all.
\<close>

definition like_raises :: "int \<Rightarrow> string \<Rightarrow> database \<Rightarrow> bool" where
  "like_raises uid search db =
     (search \<noteq> [] \<and> pattern_too_complex (''%'' @ search @ ''%'') \<and>
      list_ex (\<lambda>r. todos_user_id r = uid) (todos db))"

definition dashboard_body :: "int \<Rightarrow> request \<Rightarrow> session \<Rightarrow> database \<Rightarrow> outcome" where
  "dashboard_body uid req s db =
     (let search = strip (args_get req ''q'')
      in if like_raises uid search db then
           \<lparr>resp = Raise_OperationalError, sess = s, db_after = db\<rparr>
         else
           \<lparr>resp = Render_dashboard (select_todos uid search db) search, sess = s,
            db_after = db\<rparr>)"

definition dashboard :: "request \<Rightarrow> session \<Rightarrow> database \<Rightarrow> outcome" where
  "dashboard = login_required dashboard_body"

definition or_None :: "string \<Rightarrow> string option" where
  "or_None v = (if v = [] then None else Some v)"

definition add_task_body :: "env \<Rightarrow> int \<Rightarrow> request \<Rightarrow> session \<Rightarrow> database \<Rightarrow> outcome" where
  "add_task_body e uid req s db =
     (if request_method req = POST then
        (let title = strip (form_get req ''title'');
             description = strip (form_get req ''description'');
             due_date = or_None (strip (form_get req ''due_date''))
         in if title = [] then
              \<lparr>resp = Redirect Url_add_task, sess = flash ''Title is required.'' ''danger'' s,
               db_after = db\<rparr>
            else if uid \<notin> set (map users_id (users db)) then
              \<lparr>resp = Raise_IntegrityError, sess = s, db_after = db\<rparr>
            else
              \<lparr>resp = Redirect Url_dashboard, sess = flash ''Task added.'' ''success'' s,
               db_after = db\<lparr>todos := todos db @
                 [\<lparr>todos_id = next_rowid (map todos_id (todos db)), todos_user_id = uid,
                   todos_title = title, todos_description = description,
                   todos_due_date = due_date, todos_done = 0,
                   todos_created_at = isoformat (utcnow e)\<rparr>]\<rparr>\<rparr>)
      else \<lparr>resp = Render_task_form ''Add'' None, sess = s, db_after = db\<rparr>)"

definition add_task :: "env \<Rightarrow> request \<Rightarrow> session \<Rightarrow> database \<Rightarrow> outcome" where
  "add_task e = login_required (add_task_body e)"

definition edit_task_body :: "int \<Rightarrow> int \<Rightarrow> request \<Rightarrow> session \<Rightarrow> database \<Rightarrow> outcome" where
  "edit_task_body task_id uid req s db =
     (if \<not> sqlite_int_ok task_id then
        \<lparr>resp = Raise_OverflowError, sess = s, db_after = db\<rparr>
      else case find (\<lambda>r. todos_id r = task_id \<and> todos_user_id r = uid) (todos db) of
        None \<Rightarrow> \<lparr>resp = Abort_404, sess = s, db_after = db\<rparr>
      | Some task \<Rightarrow>
          if request_method req = POST then
            (let title = strip (form_get req ''title'');
                 description = strip (form_get req ''description'');
                 due_date = or_None (strip (form_get req ''due_date''));
                 done = (if form req ''done'' = Some ''on'' then 1 else 0)
             in if title = [] then
                  \<lparr>resp = Redirect (Url_edit_task task_id),
                   sess = flash ''Title is required.'' ''danger'' s, db_after = db\<rparr>
                else
                  \<lparr>resp = Redirect Url_dashboard, sess = flash ''Task updated.'' ''success'' s,
                   db_after = db\<lparr>todos := map (\<lambda>r. if todos_id r = task_id
                       then r\<lparr>todos_title := title, todos_description := description,
                              todos_due_date := due_date, todos_done := done\<rparr>
                       else r) (todos db)\<rparr>\<rparr>)
          else \<lparr>resp = Render_task_form ''Edit'' (Some task), sess = s, db_after = db\<rparr>)"

definition edit_task :: "int \<Rightarrow> request \<Rightarrow> session \<Rightarrow> database \<Rightarrow> outcome" where
  "edit_task task_id = login_required (edit_task_body task_id)"

definition delete_task_body :: "int \<Rightarrow> int \<Rightarrow> request \<Rightarrow> session \<Rightarrow> database \<Rightarrow> outcome" where
  "delete_task_body task_id uid req s db =
     (if \<not> sqlite_int_ok task_id then
        \<lparr>resp = Raise_OverflowError, sess = s, db_after = db\<rparr>
      else
        \<lparr>resp = Redirect Url_dashboard, sess = flash ''Task deleted.'' ''info'' s,
         db_after = db\<lparr>todos := filter (\<lambda>r. \<not> (todos_id r = task_id \<and> todos_user_id r = uid))
                                   (todos db)\<rparr>\<rparr>)"

definition delete_task :: "int \<Rightarrow> request \<Rightarrow> session \<Rightarrow> database \<Rightarrow> outcome" where
  "delete_task task_id = login_required (delete_task_body task_id)"

definition toggle_task_body :: "int \<Rightarrow> int \<Rightarrow> request \<Rightarrow> session \<Rightarrow> database \<Rightarrow> outcome" where
  "toggle_task_body task_id uid req s db =
     (if \<not> sqlite_int_ok task_id then
        \<lparr>resp = Raise_OverflowError, sess = s, db_after = db\<rparr>
      else case find (\<lambda>r. todos_id r = task_id \<and> todos_user_id r = uid) (todos db) of
        None \<Rightarrow> \<lparr>resp = Abort_404, sess = s, db_after = db\<rparr>
      | Some row \<Rightarrow>
          (let new_done = (if todos_done row \<noteq> 0 then 0 else 1)
           in \<lparr>resp = Redirect Url_dashboard, sess = s,
               db_after = db\<lparr>todos := map (\<lambda>r. if todos_id r = task_id
                   then r\<lparr>todos_done := new_done\<rparr> else r) (todos db)\<rparr>\<rparr>))"

definition toggle_task :: "int \<Rightarrow> request \<Rightarrow> session \<Rightarrow> database \<Rightarrow> outcome" where
  "toggle_task task_id = login_required (toggle_task_body task_id)"

section \<open>A concrete deployment\<close>

text \<open>
  Two users and four tasks, used to run the theorems below on actual data. The stand-in
  for the password library keeps the password behind a fixed tag.
\<close>

definition example_env :: env where
  "example_env =
     \<lparr>generate_password_hash = (\<lambda>s p. ''plain$'' @ p),
      check_password_hash = (\<lambda>h p. h = ''plain$'' @ p),
      salt = ''NaCl'',
      utcnow = \<lparr>year = 2024, month = 5, day = 1, hour = 9, minute = 30, second = 0,
                 microsecond = 250000\<rparr>\<rparr>"

text \<open>
  A second stand-in keeps of a password what the HMAC of PBKDF2 and scrypt keeps of a key
  of at most 64 bytes: the key padded with zero bytes to the block size.
\<close>

definition hmac_key :: "string \<Rightarrow> string" where
  "hmac_key password = password @ replicate (64 - utf8_length password) (CHR 0x00)"

definition zero_padding_env :: env where
  "zero_padding_env =
     \<lparr>generate_password_hash = (\<lambda>s p. hmac_key p),
      check_password_hash = (\<lambda>h p. h = hmac_key p),
      salt = ''NaCl'',
      utcnow = \<lparr>year = 2024, month = 5, day = 1, hour = 9, minute = 30, second = 0,
                 microsecond = 250000\<rparr>\<rparr>"

definition alice_session :: session where
  "alice_session =
     session_clear\<lparr>session_user_id := Some 1, session_username := Some ''alice''\<rparr>"

definition bob_session :: session where
  "bob_session = session_clear\<lparr>session_user_id := Some 2, session_username := Some ''bob''\<rparr>"

definition T1 :: todos_row where
  "T1 = \<lparr>todos_id = 1, todos_user_id = 1, todos_title = ''Buy Milk'',
          todos_description = ''two litres'', todos_due_date = None, todos_done = 0,
          todos_created_at = ''2024-05-01T09:00:00''\<rparr>"

definition T2 :: todos_row where
  "T2 = \<lparr>todos_id = 2, todos_user_id = 1, todos_title = ''Call plumber'',
          todos_description = [], todos_due_date = Some ''2024-05-03'', todos_done = 1,
          todos_created_at = ''2024-05-01T09:00:00.000001''\<rparr>"

definition T3 :: todos_row where
  "T3 = \<lparr>todos_id = 3, todos_user_id = 1, todos_title = ''Pay rent'',
          todos_description = ''100% by transfer'', todos_due_date = None, todos_done = 0,
          todos_created_at = ''2024-05-01T09:00:01''\<rparr>"

definition T4 :: todos_row where
  "T4 = \<lparr>todos_id = 4, todos_user_id = 2, todos_title = ''Walk dog'',
          todos_description = [], todos_due_date = None, todos_done = 0,
          todos_created_at = ''2024-05-01T09:10:00''\<rparr>"

definition example_db :: database where
  "example_db =
     \<lparr>users = [\<lparr>users_id = 1, users_username = ''alice'',
                 users_password_hash = ''plain$pw123'',
                 users_created_at = ''2024-04-30T08:00:00''\<rparr>,
               \<lparr>users_id = 2, users_username = ''bob'',
                 users_password_hash = ''plain$pw456'',
                 users_created_at = ''2024-04-30T08:05:00''\<rparr>],
      todos = [T1, T2, T3, T4]\<rparr>"

definition post :: "(string \<times> string) list \<Rightarrow> request" where
  "post kvs = \<lparr>request_method = POST, form = map_of kvs, args = Map.empty, path = ''/''\<rparr>"

definition get :: "(string \<times> string) list \<Rightarrow> request" where
  "get kvs = \<lparr>request_method = GET, form = Map.empty, args = map_of kvs, path = ''/''\<rparr>"

text \<open>The row a \<open>SELECT * FROM todos WHERE id = ?\<close> would fetch: how a task is observed.\<close>

definition task_by_id :: "database \<Rightarrow> int \<Rightarrow> todos_row option" where
  "task_by_id db tid = find (\<lambda>x. todos_id x = tid) (todos db)"

text \<open>A third user registers, with blanks around the name.\<close>

definition carol_registers :: request where
  "carol_registers =
     post [(''username'', '' carol ''), (''password'', ''pw789''), (''password2'', ''pw789'')]"

definition carol_db :: database where
  "carol_db = db_after (register example_env carol_registers session_clear example_db)"

text \<open>The times at which the tasks T1, T2 and T3 were created.\<close>

definition T1_created :: datetime where
  "T1_created = \<lparr>year = 2024, month = 5, day = 1, hour = 9, minute = 0, second = 0,
                   microsecond = 0\<rparr>"

definition T2_created :: datetime where
  "T2_created = \<lparr>year = 2024, month = 5, day = 1, hour = 9, minute = 0, second = 0,
                   microsecond = 1\<rparr>"

definition T3_created :: datetime where
  "T3_created = \<lparr>year = 2024, month = 5, day = 1, hour = 9, minute = 0, second = 1,
                   microsecond = 0\<rparr>"

section \<open>Basic facts about the views\<close>

lemma login_required_Some:
  "session_user_id s = Some uid \<Longrightarrow> login_required fn req s db = fn uid req s db"
  by (simp add: login_required_def)

lemma flash_user_id: "session_user_id (flash m c s) = session_user_id s"
  by (simp add: flash_def)

lemma alice_logged_in: "session_user_id alice_session = Some 1"
  by (simp add: alice_session_def session_clear_def)

lemma bob_logged_in: "session_user_id bob_session = Some 2"
  by (simp add: bob_session_def session_clear_def)

section \<open>Deleting a task\<close>

text \<open>
  C6, as the specification states it, fails for a task id that does not fit 64 bits, which
  the route accepts: binding it raises \<open>OverflowError\<close>, so the request ends in an error
  although no row matches.
\<close>

theorem delete_task_overflow_counterexample:
  "2 ^ 63 \<notin> set (map todos_id (todos example_db)) \<and>
   delete_task (2 ^ 63) (post []) alice_session example_db =
     \<lparr>resp = Raise_OverflowError, sess = alice_session, db_after = example_db\<rparr>"
  by (simp add: delete_task_def login_required_Some [OF alice_logged_in] delete_task_body_def
      sqlite_int_ok_def example_db_def T1_def T2_def T3_def T4_def)

text \<open>
  C6, amended. For a logged-in user \<open>uid\<close> and a task id that fits 64 bits, \<open>delete_task\<close>
  answers with the redirect to the dashboard, never with an error; afterwards the table
  holds the rows it held before except those with that id owned by \<open>uid\<close>, the users are
  untouched, and when no such row existed the database is unchanged. A second call right
  after the first answers the same way and leaves the database as the first call left it.
  For a task id that does not fit 64 bits the request raises \<open>OverflowError\<close> and changes
  neither session nor database.
\<close>

theorem delete_task_idempotent:
  assumes "session_user_id s = Some uid"
  shows "(sqlite_int_ok tid \<longrightarrow>
           (let o1 = delete_task tid req s db;
                o2 = delete_task tid req' (sess o1) (db_after o1)
            in resp o1 = Redirect Url_dashboard \<and> resp o2 = Redirect Url_dashboard \<and>
               db_after o2 = db_after o1 \<and>
               users (db_after o1) = users db \<and>
               set (todos (db_after o1)) =
                 set (todos db) - {r. todos_id r = tid \<and> todos_user_id r = uid} \<and>
               ((\<forall>r \<in> set (todos db). \<not> (todos_id r = tid \<and> todos_user_id r = uid)) \<longrightarrow>
                  db_after o1 = db))) \<and>
         (\<not> sqlite_int_ok tid \<longrightarrow>
            delete_task tid req s db =
              \<lparr>resp = Raise_OverflowError, sess = s, db_after = db\<rparr>)"
proof -
  let ?P = "\<lambda>r. todos_id r = tid \<and> todos_user_id r = uid"
  have keep: "(\<forall>r \<in> set (todos db). \<not> ?P r) \<Longrightarrow> filter (\<lambda>r. \<not> ?P r) (todos db) = todos db"
    by (rule filter_True) simp
  show ?thesis
    using assms keep
    by (auto simp: delete_task_def login_required_Some flash_user_id delete_task_body_def Let_def)
qed

theorem delete_task_idempotent_witness:
  "session_user_id alice_session = Some 1 \<and> sqlite_int_ok 1 \<and> sqlite_int_ok 4 \<and>
   todos (db_after (delete_task 1 (post []) alice_session example_db)) = [T2, T3, T4] \<and>
   db_after (delete_task 1 (post [])
      (sess (delete_task 1 (post []) alice_session example_db))
      (db_after (delete_task 1 (post []) alice_session example_db))) =
     db_after (delete_task 1 (post []) alice_session example_db) \<and>
   db_after (delete_task 4 (post []) alice_session example_db) = example_db \<and>
   \<not> sqlite_int_ok (2 ^ 63) \<and>
   resp (delete_task (2 ^ 63) (post []) alice_session example_db) = Raise_OverflowError"
proof -
  have i: "sqlite_int_ok 1" "sqlite_int_ok 4" "\<not> sqlite_int_ok (2 ^ 63)"
    by (simp_all add: sqlite_int_ok_def)
  have l: "todos (db_after (delete_task 1 (post []) alice_session example_db)) = [T2, T3, T4]"
    by (simp add: delete_task_def login_required_Some [OF alice_logged_in] delete_task_body_def
        i example_db_def T1_def T2_def T3_def T4_def)
  have n: "\<forall>r \<in> set (todos example_db). \<not> (todos_id r = 4 \<and> todos_user_id r = 1)"
    by (simp add: example_db_def T1_def T2_def T3_def T4_def)
  from delete_task_idempotent [OF alice_logged_in, of 1 "post []" example_db "post []"]
       delete_task_idempotent [OF alice_logged_in, of 4 "post []" example_db "post []"]
       delete_task_idempotent [OF alice_logged_in, of "2 ^ 63" "post []" example_db "post []"]
       alice_logged_in l n i
  show ?thesis by (simp add: Let_def)
qed

section \<open>Primary keys\<close>

lemma find_owned_unique:
  assumes "distinct (map todos_id xs)" "r \<in> set xs"
  shows "find (\<lambda>x. todos_id x = todos_id r \<and> todos_user_id x = todos_user_id r) xs = Some r"
  using assms
  by (induction xs) (auto simp: image_iff)

lemma find_id_unique:
  assumes "distinct (map todos_id xs)" "r \<in> set xs"
  shows "find (\<lambda>x. todos_id x = todos_id r) xs = Some r"
  using assms
  by (induction xs) (auto simp: image_iff)

lemma map_done_twice:
  assumes "distinct (map todos_id xs)" "r \<in> set xs"
  shows "map (\<lambda>x. if todos_id x = todos_id r then x\<lparr>todos_done := d\<rparr> else x)
           (map (\<lambda>x. if todos_id x = todos_id r then x\<lparr>todos_done := d'\<rparr> else x) xs) =
         map (\<lambda>x. if todos_id x = todos_id r then x\<lparr>todos_done := d\<rparr> else x) xs"
  by (induction xs) auto

lemma same_id_same_row:
  assumes "distinct (map todos_id xs)" "r \<in> set xs" "x \<in> set xs" "todos_id x = todos_id r"
  shows "x = r"
  using assms by (meson distinct_map inj_onD)

lemma map_done_same:
  assumes "distinct (map todos_id xs)" "r \<in> set xs" "d = todos_done r"
  shows "map (\<lambda>x. if todos_id x = todos_id r then x\<lparr>todos_done := d\<rparr> else x) xs = xs"
proof (rule map_idI)
  fix x assume "x \<in> set xs"
  then have "todos_id x = todos_id r \<Longrightarrow> x = r"
    by (rule same_id_same_row [OF assms(1,2)])
  then show "(if todos_id x = todos_id r then x\<lparr>todos_done := d\<rparr> else x) = x"
    using assms(3) by (cases "todos_id x = todos_id r") simp_all
qed

lemma ids_after_set_done:
  "map todos_id (map (\<lambda>x. if P x then x\<lparr>todos_done := d\<rparr> else x) xs) = map todos_id xs"
  by (induction xs) auto

lemma find_owned_after_set_done:
  assumes "distinct (map todos_id xs)" "r \<in> set xs"
  shows "find (\<lambda>x. todos_id x = todos_id r \<and> todos_user_id x = todos_user_id r)
           (map (\<lambda>x. if todos_id x = todos_id r then x\<lparr>todos_done := d\<rparr> else x) xs) =
         Some (r\<lparr>todos_done := d\<rparr>)"
  using assms
  by (induction xs) (auto simp: image_iff)

lemma find_id_after_set_done:
  assumes "distinct (map todos_id xs)" "r \<in> set xs"
  shows "find (\<lambda>x. todos_id x = todos_id r)
           (map (\<lambda>x. if todos_id x = todos_id r then x\<lparr>todos_done := d\<rparr> else x) xs) =
         Some (r\<lparr>todos_done := d\<rparr>)"
  using assms
  by (induction xs) (auto simp: image_iff)


lemma toggle_once:
  assumes "session_user_id s = Some (todos_user_id r)" "distinct (map todos_id (todos db))"
    "r \<in> set (todos db)" "sqlite_int_ok (todos_id r)"
  shows "toggle_task (todos_id r) req s db =
           \<lparr>resp = Redirect Url_dashboard, sess = s,
            db_after = db\<lparr>todos := map (\<lambda>x. if todos_id x = todos_id r
               then x\<lparr>todos_done := (if todos_done r \<noteq> 0 then 0 else 1)\<rparr> else x) (todos db)\<rparr>\<rparr>"
  using assms
  by (simp add: toggle_task_def login_required_Some toggle_task_body_def find_owned_unique Let_def)

lemma example_db_ids: "distinct (map todos_id (todos example_db))"
  by (simp add: example_db_def T1_def T2_def T3_def T4_def)

section \<open>Toggling a task\<close>

text \<open>
  C7. For a task \<open>r\<close> of the logged-in user (the table's ids being unique, as its primary
  key has them), one \<open>toggle_task\<close> redirects to the dashboard and leaves the task with
  \<open>done\<close> flipped (0 when it was set, 1 when it was 0) and nothing else changed; a second
  one right after leaves the task with \<open>done\<close> at its first truth value again, and when
  \<open>done\<close> was 0 or 1, the only values the program writes, the whole database is as before.
  This is so when the id of \<open>r\<close> fits 64 bits, as every id that the engine assigns does;
  for a row with another id the request raises \<open>OverflowError\<close> and changes nothing.
\<close>

theorem toggle_task_involution:
  assumes "session_user_id s = Some (todos_user_id r)"
    and "distinct (map todos_id (todos db))"
    and "r \<in> set (todos db)"
  shows "if sqlite_int_ok (todos_id r) then
           (let o1 = toggle_task (todos_id r) req s db;
                o2 = toggle_task (todos_id r) req' (sess o1) (db_after o1)
            in resp o1 = Redirect Url_dashboard \<and> resp o2 = Redirect Url_dashboard \<and>
               task_by_id (db_after o1) (todos_id r) =
                 Some (r\<lparr>todos_done := (if todos_done r \<noteq> 0 then 0 else 1)\<rparr>) \<and>
               task_by_id (db_after o2) (todos_id r) =
                 Some (r\<lparr>todos_done := (if todos_done r \<noteq> 0 then 1 else 0)\<rparr>) \<and>
               ((todos_done r = 0 \<or> todos_done r = 1) \<longrightarrow> db_after o2 = db))
         else toggle_task (todos_id r) req s db =
                \<lparr>resp = Raise_OverflowError, sess = s, db_after = db\<rparr>"
proof (cases "sqlite_int_ok (todos_id r)")
  case False
  then show ?thesis
    using assms(1)
    by (simp add: toggle_task_def login_required_Some toggle_task_body_def)
next
  case ok: True
  let ?d1 = "if todos_done r \<noteq> 0 then 0 else 1 :: int"
  let ?r1 = "r\<lparr>todos_done := ?d1\<rparr>"
  let ?xs1 = "map (\<lambda>x. if todos_id x = todos_id r then x\<lparr>todos_done := ?d1\<rparr> else x) (todos db)"
  let ?db1 = "db\<lparr>todos := ?xs1\<rparr>"
  have o1: "toggle_task (todos_id r) req s db =
              \<lparr>resp = Redirect Url_dashboard, sess = s, db_after = ?db1\<rparr>"
    using assms ok by (rule toggle_once)
  have d1': "distinct (map todos_id ?xs1)"
    unfolding ids_after_set_done by (rule assms(2))
  have t1: "todos ?db1 = ?xs1"
    by simp
  have d1: "distinct (map todos_id (todos ?db1))"
    unfolding t1 by (rule d1')
  have in1: "?r1 \<in> set (todos ?db1)"
    using assms(3) by (auto simp: image_iff intro!: bexI [of _ r])
  have o2: "toggle_task (todos_id r) req' s ?db1 =
              \<lparr>resp = Redirect Url_dashboard, sess = s,
               db_after = ?db1\<lparr>todos := map (\<lambda>x. if todos_id x = todos_id r
                 then x\<lparr>todos_done := (if ?d1 \<noteq> 0 then 0 else 1)\<rparr> else x) ?xs1\<rparr>\<rparr>"
    using toggle_once [of s ?r1 ?db1 req'] assms(1) d1 in1 ok by simp
  have xs2: "map (\<lambda>x. if todos_id x = todos_id r
                 then x\<lparr>todos_done := (if ?d1 \<noteq> 0 then 0 else 1)\<rparr> else x) ?xs1 =
             map (\<lambda>x. if todos_id x = todos_id r
                 then x\<lparr>todos_done := (if todos_done r \<noteq> 0 then 1 else 0)\<rparr> else x) (todos db)"
    using map_done_twice [OF assms(2,3)] by (simp split: if_splits)
  have restored: "todos_done r = 0 \<or> todos_done r = 1 \<Longrightarrow>
      map (\<lambda>x. if todos_id x = todos_id r
                 then x\<lparr>todos_done := (if todos_done r \<noteq> 0 then 1 else 0)\<rparr> else x) (todos db) = todos db"
    by (rule map_done_same [OF assms(2,3)]) auto
  have "let o1 = toggle_task (todos_id r) req s db;
            o2 = toggle_task (todos_id r) req' (sess o1) (db_after o1)
        in resp o1 = Redirect Url_dashboard \<and> resp o2 = Redirect Url_dashboard \<and>
           task_by_id (db_after o1) (todos_id r) =
             Some (r\<lparr>todos_done := (if todos_done r \<noteq> 0 then 0 else 1)\<rparr>) \<and>
           task_by_id (db_after o2) (todos_id r) =
             Some (r\<lparr>todos_done := (if todos_done r \<noteq> 0 then 1 else 0)\<rparr>) \<and>
           ((todos_done r = 0 \<or> todos_done r = 1) \<longrightarrow> db_after o2 = db)"
    unfolding Let_def o1 outcome.simps o2 xs2 task_by_id_def
    using find_id_after_set_done [OF assms(2,3)] restored
    by auto
  then show ?thesis
    using ok by (simp only: if_True)
qed


theorem toggle_task_involution_witness:
  "session_user_id alice_session = Some (todos_user_id T1) \<and>
   distinct (map todos_id (todos example_db)) \<and> T1 \<in> set (todos example_db) \<and>
   sqlite_int_ok (todos_id T1) \<and> todos_done T1 = 0 \<and>
   task_by_id (db_after (toggle_task 1 (post []) alice_session example_db)) 1 =
     Some (T1\<lparr>todos_done := 1\<rparr>) \<and>
   db_after (toggle_task 1 (post [])
       (sess (toggle_task 1 (post []) alice_session example_db))
       (db_after (toggle_task 1 (post []) alice_session example_db))) = example_db"
proof -
  have u: "session_user_id alice_session = Some (todos_user_id T1)"
    by (simp add: alice_logged_in T1_def)
  have m: "T1 \<in> set (todos example_db)"
    by (simp add: example_db_def)
  have i: "todos_id T1 = 1" and d: "todos_done T1 = 0"
    by (simp_all add: T1_def)
  have k: "sqlite_int_ok (todos_id T1)"
    by (simp add: i sqlite_int_ok_def)
  from toggle_task_involution [OF u example_db_ids m, of "post []" "post []"]
       u example_db_ids m d k
  show ?thesis by (simp add: Let_def i)
qed

section \<open>Stripping\<close>

lemma dropWhile_all_iff: "(\<forall>x \<in> set (dropWhile P s). P x) \<longleftrightarrow> dropWhile P s = []"
proof
  assume a: "\<forall>x \<in> set (dropWhile P s). P x"
  show "dropWhile P s = []"
  proof (rule ccontr)
    assume n: "dropWhile P s \<noteq> []"
    then have "\<not> P (hd (dropWhile P s))"
      by (rule hd_dropWhile)
    moreover have "hd (dropWhile P s) \<in> set (dropWhile P s)"
      using n by (rule hd_in_set)
    ultimately show False
      using a by blast
  qed
next
  assume e: "dropWhile P s = []"
  show "\<forall>x \<in> set (dropWhile P s). P x"
    unfolding e by simp
qed

lemma strip_Nil_iff: "strip s = [] \<longleftrightarrow> (\<forall>c \<in> set s. py_isspace c)"
proof -
  have "strip s = [] \<longleftrightarrow> dropWhile py_isspace (rev (dropWhile py_isspace s)) = []"
    by (simp add: strip_def lstrip_def rstrip_def)
  also have "\<dots> \<longleftrightarrow> (\<forall>x \<in> set (dropWhile py_isspace s). py_isspace x)"
    by (simp add: dropWhile_eq_Nil_conv)
  also have "\<dots> \<longleftrightarrow> dropWhile py_isspace s = []"
    by (rule dropWhile_all_iff)
  also have "\<dots> \<longleftrightarrow> (\<forall>c \<in> set s. py_isspace c)"
    by (simp add: dropWhile_eq_Nil_conv)
  finally show ?thesis .
qed

section \<open>Title validation\<close>

text \<open>
  C5. A logged-in user posts a form whose title is empty or consists of white space only
  (or carries no title at all). \<open>add_task\<close> then answers with the redirect back to the form
  and the message "Title is required." of category danger, and the database is unchanged: no
  row is inserted. \<open>edit_task\<close> with such a form leaves the database unchanged as well,
  whatever the task id, and for a task of the user it answers with the redirect back to the
  edit form and the same message (when the task id fits 64 bits, as every id that the
  engine assigns does; otherwise the request raises \<open>OverflowError\<close>, the database unchanged
  all the same).
\<close>

theorem empty_title_rejected:
  assumes "session_user_id s = Some uid"
    and "request_method req = POST"
    and "\<forall>c \<in> set (form_get req ''title''). py_isspace c"
  shows "add_task e req s db =
           \<lparr>resp = Redirect Url_add_task, sess = flash ''Title is required.'' ''danger'' s,
            db_after = db\<rparr> \<and>
         db_after (edit_task task_id req s db) = db \<and>
         ((\<exists>r \<in> set (todos db). todos_id r = task_id \<and> todos_user_id r = uid) \<longrightarrow>
            edit_task task_id req s db =
              (if sqlite_int_ok task_id then
                 \<lparr>resp = Redirect (Url_edit_task task_id),
                  sess = flash ''Title is required.'' ''danger'' s, db_after = db\<rparr>
               else \<lparr>resp = Raise_OverflowError, sess = s, db_after = db\<rparr>))"
proof -
  have t: "strip (form_get req ''title'') = []"
    using assms(3) by (simp add: strip_Nil_iff)
  have a: "add_task e req s db =
           \<lparr>resp = Redirect Url_add_task, sess = flash ''Title is required.'' ''danger'' s,
            db_after = db\<rparr>"
    using assms(1,2) t by (simp add: add_task_def login_required_Some add_task_body_def Let_def)
  have b: "db_after (edit_task task_id req s db) = db"
    using assms(1,2) t
    by (simp add: edit_task_def login_required_Some edit_task_body_def Let_def split: option.splits)
  have c: "edit_task task_id req s db =
              (if sqlite_int_ok task_id then
                 \<lparr>resp = Redirect (Url_edit_task task_id),
                  sess = flash ''Title is required.'' ''danger'' s, db_after = db\<rparr>
               else \<lparr>resp = Raise_OverflowError, sess = s, db_after = db\<rparr>)"
    if "\<exists>r \<in> set (todos db). todos_id r = task_id \<and> todos_user_id r = uid"
  proof -
    from that have "find (\<lambda>r. todos_id r = task_id \<and> todos_user_id r = uid) (todos db) \<noteq> None"
      by (auto simp: find_None_iff)
    then show ?thesis
      using assms(1,2) t
      by (auto simp: edit_task_def login_required_Some edit_task_body_def Let_def)
  qed
  from a b c show ?thesis by blast
qed

theorem empty_title_rejected_witness:
  "session_user_id alice_session = Some 1 \<and> sqlite_int_ok 1 \<and>
   add_task example_env (post [(''title'', ''   ''), (''description'', ''x'')]) alice_session example_db =
      \<lparr>resp = Redirect Url_add_task,
       sess = flash ''Title is required.'' ''danger'' alice_session, db_after = example_db\<rparr> \<and>
   edit_task 1 (post [(''title'', ''   ''), (''description'', ''x'')]) alice_session example_db =
      \<lparr>resp = Redirect (Url_edit_task 1),
       sess = flash ''Title is required.'' ''danger'' alice_session, db_after = example_db\<rparr>"
proof -
  let ?req = "post [(''title'', ''   ''), (''description'', ''x'')]"
  have m: "request_method ?req = POST"
    by (simp add: post_def)
  have w: "\<forall>c \<in> set (form_get ?req ''title''). py_isspace c"
    by (simp add: post_def form_get_def py_isspace_def)
  have x: "\<exists>r \<in> set (todos example_db). todos_id r = 1 \<and> todos_user_id r = 1"
    by (simp add: example_db_def T1_def)
  have k: "sqlite_int_ok 1"
    by (simp add: sqlite_int_ok_def)
  from empty_title_rejected [OF alice_logged_in m w, of example_env example_db 1]
       x alice_logged_in k
  show ?thesis by simp
qed

section \<open>Session lifecycle\<close>

lemma logout_unconditional:
  "logout s db =
     \<lparr>resp = Redirect (Url_login None),
      sess = \<lparr>session_user_id = None, session_username = None, session_other = Map.empty,
              session_flashes = [(''info'', ''Logged out.'')]\<rparr>,
      db_after = db\<rparr>"
  by (simp add: logout_def flash_def session_clear_def)

lemma login_success:
  assumes "request_method req = POST"
    and "authenticate e db (strip (form_get req ''username'')) (form_get req ''password'') = Some uid"
    and "uid \<noteq> 0"
  shows "sess (login e req s db) =
           \<lparr>session_user_id = Some uid,
            session_username = Some (strip (form_get req ''username'')),
            session_other = Map.empty,
            session_flashes = [(''success'', ''Logged in successfully.'')]\<rparr>"
  using assms by (simp add: login_def Let_def flash_def session_clear_def)

text \<open>
  C9. After \<open>logout\<close> the session holds no key at all, only the message "Logged out."
  queued after the clearing, whatever it held before and whatever the database: nothing
  is assumed. And when a posted login authenticates (\<open>authenticate\<close> returns a non-zero
  id), the session after the request is the same whatever the session before held:
  \<open>user_id\<close> is the id returned, \<open>username\<close> the stripped user name, no other key is left,
  and the flash queue holds the one message queued after the clearing.
\<close>

theorem session_lifecycle:
  "logout s db =
     \<lparr>resp = Redirect (Url_login None),
      sess = \<lparr>session_user_id = None, session_username = None, session_other = Map.empty,
              session_flashes = [(''info'', ''Logged out.'')]\<rparr>,
      db_after = db\<rparr> \<and>
   (request_method req = POST \<and>
    authenticate e db' (strip (form_get req ''username'')) (form_get req ''password'') =
      Some uid \<and> uid \<noteq> 0 \<longrightarrow>
      sess (login e req s' db') =
        \<lparr>session_user_id = Some uid,
         session_username = Some (strip (form_get req ''username'')),
         session_other = Map.empty,
         session_flashes = [(''success'', ''Logged in successfully.'')]\<rparr>)"
  using logout_unconditional [of s db] login_success [of req e db' uid s']
  by blast

theorem session_lifecycle_witness:
  "request_method (post [(''username'', '' alice ''), (''password'', ''pw123'')]) = POST \<and>
   authenticate example_env example_db ''alice'' ''pw123'' = Some 1 \<and>
   sess (login example_env (post [(''username'', '' alice ''), (''password'', ''pw123'')])
           (flash ''stale'' ''info'' (bob_session\<lparr>session_other := [''cart'' \<mapsto> ''7'']\<rparr>)) example_db) =
     \<lparr>session_user_id = Some 1, session_username = Some ''alice'',
      session_other = Map.empty,
      session_flashes = [(''success'', ''Logged in successfully.'')]\<rparr> \<and>
   sess (logout (flash ''stale'' ''info'' (bob_session\<lparr>session_other := [''cart'' \<mapsto> ''7'']\<rparr>))
           \<lparr>users = [], todos = []\<rparr>) =
     \<lparr>session_user_id = None, session_username = None, session_other = Map.empty,
      session_flashes = [(''info'', ''Logged out.'')]\<rparr>"
proof -
  let ?req = "post [(''username'', '' alice ''), (''password'', ''pw123'')]"
  let ?stale = "flash ''stale'' ''info'' (bob_session\<lparr>session_other := [''cart'' \<mapsto> ''7'']\<rparr>)"
  have m: "request_method ?req = POST"
    by (simp add: post_def)
  have n: "strip (form_get ?req ''username'') = ''alice''"
    by (simp add: post_def form_get_def strip_def lstrip_def rstrip_def py_isspace_def)
  have p: "form_get ?req ''password'' = ''pw123''"
    by (simp add: post_def form_get_def)
  have a: "authenticate example_env example_db ''alice'' ''pw123'' = Some 1"
    by (simp add: authenticate_def example_env_def example_db_def)
  have a': "authenticate example_env example_db (strip (form_get ?req ''username''))
              (form_get ?req ''password'') = Some 1"
    unfolding n p by (rule a)
  from session_lifecycle [of ?stale "\<lparr>users = [], todos = []\<rparr>" ?req example_env example_db 1 ?stale]
    m a a' n
  show ?thesis by simp
qed

section \<open>Users: fresh ids, lookup of a new row\<close>

lemma next_rowid_fresh: "next_rowid ids \<notin> set ids"
proof
  assume m: "next_rowid ids \<in> set ids"
  then have ne: "ids \<noteq> []" by auto
  then have "next_rowid ids = Max (set ids) + 1"
    by (simp add: next_rowid_def)
  moreover have "next_rowid ids \<le> Max (set ids)"
    using m by (simp add: Max_ge)
  ultimately show False by simp
qed

lemma next_rowid_positive:
  assumes "list_all (\<lambda>i. 0 < i) ids"
  shows "0 < next_rowid ids"
proof (cases "ids = []")
  case True
  then show ?thesis by (simp add: next_rowid_def)
next
  case False
  then have "hd ids \<in> set ids" by simp
  then have "0 < hd ids" and "hd ids \<le> Max (set ids)"
    using assms by (auto simp: list_all_iff)
  then have "0 < Max (set ids)" by linarith
  then show ?thesis using False by (simp add: next_rowid_def)
qed

lemma find_append_new:
  assumes "\<forall>x \<in> set xs. \<not> P x" and "P y"
  shows "find P (xs @ [y]) = Some y"
  using assms by (induction xs) auto

lemma create_user_taken:
  "username \<in> set (map users_username (users db)) \<Longrightarrow>
     create_user e db username password = (False, db)"
  by (simp add: create_user_def)

lemma create_user_new:
  assumes "create_user e db username password = (True, db')"
  shows "username \<notin> set (map users_username (users db))"
    and "db' = db\<lparr>users := users db @
              [\<lparr>users_id = next_rowid (map users_id (users db)),
                users_username = username,
                users_password_hash = generate_password_hash e (salt e) password,
                users_created_at = isoformat (utcnow e)\<rparr>]\<rparr>"
  using assms by (auto simp: create_user_def split: if_splits)

lemma create_user_usernames_distinct:
  assumes "distinct (map users_username (users db))"
  shows "distinct (map users_username (users (snd (create_user e db username password))))"
  using assms by (simp add: create_user_def)

lemma authenticate_new:
  assumes "create_user e db username password = (True, db')"
    and "check_password_hash e' = check_password_hash e"
  shows "authenticate e' db' username password' =
           (if check_password_hash e (generate_password_hash e (salt e) password) password'
            then Some (next_rowid (map users_id (users db))) else None)"
proof -
  let ?row = "\<lparr>users_id = next_rowid (map users_id (users db)),
                users_username = username,
                users_password_hash = generate_password_hash e (salt e) password,
                users_created_at = isoformat (utcnow e)\<rparr>"
  have n: "\<forall>x \<in> set (users db). \<not> users_username x = username"
    using create_user_new(1) [OF assms(1)] by auto
  have "find (\<lambda>r. users_username r = username) (users db @ [?row]) = Some ?row"
    by (rule find_append_new [OF n]) simp
  then show ?thesis
    unfolding create_user_new(2) [OF assms(1)]
    by (simp add: authenticate_def assms(2))
qed

lemma example_accepts_own: "accepts_own_password example_env"
  by (simp add: accepts_own_password_def example_env_def)

lemma next_rowid_example: "next_rowid [1, 2] = 3"
  by (simp add: next_rowid_def)

lemma rstrip_Cons:
  "rstrip (x # xs) =
     (if \<forall>y \<in> set xs. py_isspace y then (if py_isspace x then [] else [x]) else x # rstrip xs)"
  by (simp add: rstrip_def dropWhile_append)

lemma rstrip_all_space: "\<forall>y \<in> set xs. py_isspace y \<Longrightarrow> rstrip xs = []"
  by (simp add: rstrip_def)

lemma lstrip_all_space: "\<forall>y \<in> set xs. py_isspace y \<Longrightarrow> lstrip xs = []"
  by (simp add: lstrip_def)

lemma lstrip_rstrip: "lstrip (rstrip s) = rstrip (lstrip s)"
proof (induction s)
  case Nil
  show ?case by (simp add: lstrip_def rstrip_def)
next
  case (Cons x xs)
  show ?case
  proof (cases "py_isspace x")
    case True
    then have l: "lstrip (x # xs) = lstrip xs"
      by (simp add: lstrip_def)
    show ?thesis
    proof (cases "\<forall>y \<in> set xs. py_isspace y")
      case True
      have "rstrip (x # xs) = []"
        using True \<open>py_isspace x\<close> by (simp add: rstrip_Cons)
      then have "lstrip (rstrip (x # xs)) = []"
        by (simp add: lstrip_def)
      moreover have "rstrip (lstrip (x # xs)) = []"
        unfolding l lstrip_all_space [OF True] by (simp add: rstrip_def)
      ultimately show ?thesis by simp
    next
      case False
      have "rstrip (x # xs) = x # rstrip xs"
        by (simp only: rstrip_Cons [of x xs] False if_False)
      then have "lstrip (rstrip (x # xs)) = lstrip (rstrip xs)"
        using \<open>py_isspace x\<close> by (simp add: lstrip_def)
      then show ?thesis
        using Cons.IH l by simp
    qed
  next
    case False
    then have l: "lstrip (x # xs) = x # xs"
      by (simp add: lstrip_def)
    have "lstrip (rstrip (x # xs)) = rstrip (x # xs)"
      using False by (simp add: rstrip_Cons lstrip_def)
    then show ?thesis
      using l by simp
  qed
qed

lemma rstrip_idem: "rstrip (rstrip s) = rstrip s"
  by (simp add: rstrip_def)

lemma lstrip_idem: "lstrip (lstrip s) = lstrip s"
  by (simp add: lstrip_def)

lemma strip_idem: "strip (strip s) = strip s"
proof -
  have "strip (strip s) = rstrip (lstrip (rstrip (lstrip s)))"
    by (simp add: strip_def)
  also have "\<dots> = rstrip (rstrip (lstrip (lstrip s)))"
    by (simp only: lstrip_rstrip)
  also have "\<dots> = strip s"
    by (simp only: rstrip_idem lstrip_idem strip_def)
  finally show ?thesis .
qed

lemma register_accepted:
  assumes "request_method req = POST" and "resp (register e req s db) = Redirect (Url_login None)"
  shows "create_user e db (strip (form_get req ''username'')) (form_get req ''password'') =
           (True, db_after (register e req s db))"
  using assms
  by (auto simp: register_def Let_def split: if_splits prod.splits)

lemma strip_examples:
  "strip '' carol '' = ''carol''" "strip ''carol'' = ''carol''" "strip '' alice '' = ''alice''"
  by (simp_all add: strip_def lstrip_def rstrip_def py_isspace_def)

section \<open>Registering a taken user name\<close>

text \<open>
  C8. When the user name is already in the table, \<open>create_user\<close> returns failure and the
  database it leaves is the database it found: the same rows, so the same number of users
  and the same password hashes. A posted registration with such a (non-empty, stripped)
  name, a non-empty password and a matching repetition answers with the redirect back to
  the form and the message "Username already taken.", the database unchanged. And
  \<open>create_user\<close> keeps user names unique, whatever name it is given.
\<close>

theorem duplicate_username_rejected:
  assumes "username \<in> set (map users_username (users db))"
  shows "create_user e db username password = (False, db) \<and>
         (request_method req = POST \<and> strip (form_get req ''username'') = username \<and>
          username \<noteq> [] \<and> form_get req ''password'' \<noteq> [] \<and>
          form_get req ''password2'' = form_get req ''password'' \<longrightarrow>
            register e req s db =
              \<lparr>resp = Redirect Url_register,
               sess = flash ''Username already taken.'' ''danger'' s, db_after = db\<rparr>) \<and>
         (distinct (map users_username (users db)) \<longrightarrow>
            distinct (map users_username (users (snd (create_user e db username' password')))))"
proof -
  have a: "create_user e db username password = (False, db)" for password
    using assms by (rule create_user_taken)
  have b: "register e req s db =
              \<lparr>resp = Redirect Url_register,
               sess = flash ''Username already taken.'' ''danger'' s, db_after = db\<rparr>"
    if "request_method req = POST" "strip (form_get req ''username'') = username" "username \<noteq> []"
       "form_get req ''password'' \<noteq> []" "form_get req ''password2'' = form_get req ''password''"
    using that a by (simp add: register_def Let_def)
  show ?thesis
    using a b create_user_usernames_distinct by blast
qed


theorem duplicate_username_rejected_witness:
  "''alice'' \<in> set (map users_username (users example_db)) \<and>
   create_user example_env example_db ''alice'' ''other'' = (False, example_db) \<and>
   register example_env
      (post [(''username'', '' alice''), (''password'', ''other''), (''password2'', ''other'')])
      bob_session example_db =
     \<lparr>resp = Redirect Url_register,
      sess = flash ''Username already taken.'' ''danger'' bob_session,
      db_after = example_db\<rparr> \<and>
   distinct (map users_username (users example_db)) \<and>
   distinct (map users_username
      (users (snd (create_user example_env example_db ''carol'' ''pw789''))))"
proof -
  let ?req = "post [(''username'', '' alice''), (''password'', ''other''), (''password2'', ''other'')]"
  have m: "''alice'' \<in> set (map users_username (users example_db))"
    by (simp add: example_db_def)
  have d: "distinct (map users_username (users example_db))"
    by (simp add: example_db_def)
  have r: "request_method ?req = POST \<and> strip (form_get ?req ''username'') = ''alice'' \<and>
           ''alice'' \<noteq> [] \<and> form_get ?req ''password'' \<noteq> [] \<and>
           form_get ?req ''password2'' = form_get ?req ''password''"
    by (simp add: post_def form_get_def strip_def lstrip_def rstrip_def py_isspace_def)
  from duplicate_username_rejected [OF m, of example_env "''other''" ?req bob_session "''carol''" "''pw789''"]
       m d r
  show ?thesis by simp
qed

section \<open>Registration and login\<close>

lemma create_user_last:
  assumes "create_user e db username password = (True, db')"
  shows "users db' = users db @ [last (users db')]"
    and "users_username (last (users db')) = username"
    and "users_password_hash (last (users db')) = generate_password_hash e (salt e) password"
    and "users_id (last (users db')) = next_rowid (map users_id (users db))"
  unfolding create_user_new(2) [OF assms] by simp_all

lemma utf8_length_append: "utf8_length (a @ b) = utf8_length a + utf8_length b"
  by (simp add: utf8_length_def)

lemma hmac_key_nul:
  assumes "utf8_length password < 64"
  shows "hmac_key (password @ [CHR 0x00]) = hmac_key password"
proof -
  have "utf8_length (password @ [CHR 0x00]) = Suc (utf8_length password)"
    by (simp add: utf8_length_def)
  moreover have "64 - utf8_length password = Suc (64 - Suc (utf8_length password))"
    using assms by simp
  ultimately show ?thesis
    by (simp add: hmac_key_def)
qed

text \<open>
  C2, as the specification states it, fails in its second half: a password other than the
  registered one can authenticate. The digest of PBKDF2 and of scrypt depends on the
  password through an HMAC key, which is padded with zero bytes, so the registered
  password followed by a NUL character (which a form can carry) is accepted too.
\<close>

theorem wrong_password_accepted_counterexample:
  "fst (create_user zero_padding_env example_db ''dave'' ''pw123'') \<and>
   ''pw123'' @ [CHR 0x00] \<noteq> ''pw123'' \<and>
   authenticate zero_padding_env
     (snd (create_user zero_padding_env example_db ''dave'' ''pw123''))
     ''dave'' (''pw123'' @ [CHR 0x00]) = Some 3"
proof -
  have c: "create_user zero_padding_env example_db ''dave'' ''pw123'' =
             (True, snd (create_user zero_padding_env example_db ''dave'' ''pw123''))"
    by (simp add: create_user_def example_db_def)
  have k: "hmac_key (''pw123'' @ [CHR 0x00]) = hmac_key ''pw123''"
    by (rule hmac_key_nul) (simp add: utf8_length_def)
  have i: "next_rowid (map users_id (users example_db)) = 3"
    by (simp add: example_db_def next_rowid_example)
  have "authenticate zero_padding_env
          (snd (create_user zero_padding_env example_db ''dave'' ''pw123''))
          ''dave'' (''pw123'' @ [CHR 0x00]) = Some 3"
    unfolding authenticate_new [OF c refl] i
    by (simp only: zero_padding_env_def env.simps k if_True simp_thms)
  moreover have "fst (create_user zero_padding_env example_db ''dave'' ''pw123'')"
    by (simp add: create_user_def example_db_def)
  moreover have "''pw123'' @ [CHR 0x00] \<noteq> ''pw123''"
    by simp
  ultimately show ?thesis
    by (intro conjI)
qed

text \<open>
  C2, amended. When \<open>create_user\<close> succeeds, the table has gained one row, the last, with
  the given name, the hash of the given password, and an id that no earlier row has. If
  the library accepts a password against the hash made from it, \<open>authenticate\<close> (at any
  later request) with the same name and password returns that id. With the same name and
  any password, it returns that id when \<open>check_password_hash\<close> accepts the password against
  the stored hash, and nothing when it refuses it.
\<close>

theorem create_user_authenticate_roundtrip:
  assumes "create_user e db username password = (True, db')"
    and "check_password_hash e' = check_password_hash e"
  shows "users db' = users db @ [last (users db')] \<and>
         users_username (last (users db')) = username \<and>
         users_password_hash (last (users db')) =
           generate_password_hash e (salt e) password \<and>
         users_id (last (users db')) \<notin> set (map users_id (users db)) \<and>
         (accepts_own_password e \<longrightarrow>
            authenticate e' db' username password = Some (users_id (last (users db')))) \<and>
         authenticate e' db' username password' =
           (if check_password_hash e (users_password_hash (last (users db'))) password'
            then Some (users_id (last (users db'))) else None)"
proof -
  note l = create_user_last [OF assms(1)]
  have f: "users_id (last (users db')) \<notin> set (map users_id (users db))"
    unfolding l(4) by (rule next_rowid_fresh)
  have a: "authenticate e' db' username p =
             (if check_password_hash e (users_password_hash (last (users db'))) p
              then Some (users_id (last (users db'))) else None)" for p
    unfolding l(3,4) by (rule authenticate_new [OF assms])
  have own: "authenticate e' db' username password = Some (users_id (last (users db')))"
    if "accepts_own_password e"
    using that a [of password] by (simp add: accepts_own_password_def l(3))
  from l(1,2,3) f own a [of password'] show ?thesis
    by blast
qed

theorem create_user_authenticate_roundtrip_witness:
  "accepts_own_password example_env \<and>
   create_user example_env example_db ''carol'' ''pw789'' =
     (True, snd (create_user example_env example_db ''carol'' ''pw789'')) \<and>
   map users_username (users (snd (create_user example_env example_db ''carol'' ''pw789''))) =
     [''alice'', ''bob'', ''carol''] \<and>
   authenticate example_env (snd (create_user example_env example_db ''carol'' ''pw789''))
     ''carol'' ''pw789'' = Some 3 \<and>
   authenticate example_env (snd (create_user example_env example_db ''carol'' ''pw789''))
     ''carol'' ''pw789 '' = None"
proof -
  let ?db' = "snd (create_user example_env example_db ''carol'' ''pw789'')"
  have c: "create_user example_env example_db ''carol'' ''pw789'' = (True, ?db')"
    by (simp add: create_user_def example_db_def)
  have i: "users_id (last (users ?db')) = 3"
    unfolding create_user_last(4) [OF c] by (simp add: example_db_def next_rowid_example)
  have h: "users_password_hash (last (users ?db')) = ''plain$pw789''"
    unfolding create_user_last(3) [OF c] by (simp add: example_env_def)
  have n: "map users_username (users ?db') = [''alice'', ''bob'', ''carol'']"
    by (simp add: create_user_def example_db_def)
  have k: "\<not> check_password_hash example_env ''plain$pw789'' ''pw789 ''"
    by (simp add: example_env_def)
  from create_user_authenticate_roundtrip [OF c refl, of "''pw789 ''"]
       example_accepts_own c n
  show ?thesis
    by (simp add: i h k)
qed

section \<open>User names are stripped, passwords are not\<close>

text \<open>
  C10. \<open>register\<close> and \<open>login\<close> give the same outcome for a submitted user name and for
  that name stripped of surrounding white space, whatever the rest of the request. After
  a posted registration that was accepted, the new row carries the stripped user name and
  the hash that the library made of the password exactly as submitted. A posted login
  whose user name agrees with the registered one up to surrounding white space is then
  decided by the library's check of its password, exactly as submitted, against that
  hash: it logs the user in when the check accepts, and is refused with "Invalid username
  or password." when it does not. No statement reads a password through \<open>strip\<close>.
\<close>

theorem username_stripped_password_verbatim:
  "register e (req\<lparr>form := (form req)(''username'' \<mapsto> u)\<rparr>) s db =
     register e (req\<lparr>form := (form req)(''username'' \<mapsto> strip u)\<rparr>) s db \<and>
   login e' (req'\<lparr>form := (form req')(''username'' \<mapsto> u)\<rparr>) s' db' =
     login e' (req'\<lparr>form := (form req')(''username'' \<mapsto> strip u)\<rparr>) s' db' \<and>
   (check_password_hash e' = check_password_hash e \<and>
    list_all (\<lambda>i. 0 < i) (map users_id (users db)) \<and>
    request_method req = POST \<and> request_method req' = POST \<and>
    resp (register e req s db) = Redirect (Url_login None) \<and>
    strip (form_get req' ''username'') = strip (form_get req ''username'') \<longrightarrow>
      users_username (last (users (db_after (register e req s db)))) =
        strip (form_get req ''username'') \<and>
      users_password_hash (last (users (db_after (register e req s db)))) =
        generate_password_hash e (salt e) (form_get req ''password'') \<and>
      login e' req' s' (db_after (register e req s db)) =
        (if check_password_hash e
              (generate_password_hash e (salt e) (form_get req ''password''))
              (form_get req' ''password'')
         then \<lparr>resp = Redirect (case args req' ''next'' of
                                   None \<Rightarrow> Url_dashboard
                                 | Some n \<Rightarrow> if n = [] then Url_dashboard else Url_next n),
                sess = \<lparr>session_user_id =
                          Some (users_id (last (users (db_after (register e req s db))))),
                        session_username = Some (strip (form_get req ''username'')),
                        session_other = Map.empty,
                        session_flashes = [(''success'', ''Logged in successfully.'')]\<rparr>,
                db_after = db_after (register e req s db)\<rparr>
         else \<lparr>resp = Redirect (Url_login None),
                sess = flash ''Invalid username or password.'' ''danger'' s',
                db_after = db_after (register e req s db)\<rparr>))"
proof -
  let ?db1 = "db_after (register e req s db)"
  let ?new = "users_id (last (users ?db1))"
  have r: "register e (req\<lparr>form := (form req)(''username'' \<mapsto> u)\<rparr>) s db =
           register e (req\<lparr>form := (form req)(''username'' \<mapsto> strip u)\<rparr>) s db"
    by (simp add: register_def form_get_def strip_idem Let_def cong: if_cong option.case_cong)
  have l: "login e' (req'\<lparr>form := (form req')(''username'' \<mapsto> u)\<rparr>) s' db' =
           login e' (req'\<lparr>form := (form req')(''username'' \<mapsto> strip u)\<rparr>) s' db'"
    by (simp add: login_def form_get_def strip_idem Let_def cong: if_cong option.case_cong)
  have d: "users_username (last (users ?db1)) = strip (form_get req ''username'') \<and>
      users_password_hash (last (users ?db1)) =
        generate_password_hash e (salt e) (form_get req ''password'') \<and>
      login e' req' s' ?db1 =
        (if check_password_hash e
              (generate_password_hash e (salt e) (form_get req ''password''))
              (form_get req' ''password'')
         then \<lparr>resp = Redirect (case args req' ''next'' of
                                   None \<Rightarrow> Url_dashboard
                                 | Some n \<Rightarrow> if n = [] then Url_dashboard else Url_next n),
                sess = \<lparr>session_user_id = Some ?new,
                        session_username = Some (strip (form_get req ''username'')),
                        session_other = Map.empty,
                        session_flashes = [(''success'', ''Logged in successfully.'')]\<rparr>,
                db_after = ?db1\<rparr>
         else \<lparr>resp = Redirect (Url_login None),
                sess = flash ''Invalid username or password.'' ''danger'' s',
                db_after = ?db1\<rparr>)"
    if h: "check_password_hash e' = check_password_hash e"
      "list_all (\<lambda>i. 0 < i) (map users_id (users db))"
      "request_method req = POST" "request_method req' = POST"
      "resp (register e req s db) = Redirect (Url_login None)"
      "strip (form_get req' ''username'') = strip (form_get req ''username'')"
  proof -
    have c: "create_user e db (strip (form_get req ''username'')) (form_get req ''password'') =
               (True, ?db1)"
      using h(3,5) by (rule register_accepted)
    note n = create_user_last [OF c]
    have a: "authenticate e' ?db1 (strip (form_get req' ''username'')) p =
               (if check_password_hash e
                     (generate_password_hash e (salt e) (form_get req ''password'')) p
                then Some ?new else None)" for p
      unfolding h(6) n(4) by (rule authenticate_new [OF c h(1)])
    have pos: "?new \<noteq> 0"
      unfolding n(4) using next_rowid_positive [OF h(2)] by simp
    have "login e' req' s' ?db1 =
        (if check_password_hash e
              (generate_password_hash e (salt e) (form_get req ''password''))
              (form_get req' ''password'')
         then \<lparr>resp = Redirect (case args req' ''next'' of
                                   None \<Rightarrow> Url_dashboard
                                 | Some n \<Rightarrow> if n = [] then Url_dashboard else Url_next n),
                sess = \<lparr>session_user_id = Some ?new,
                        session_username = Some (strip (form_get req ''username'')),
                        session_other = Map.empty,
                        session_flashes = [(''success'', ''Logged in successfully.'')]\<rparr>,
                db_after = ?db1\<rparr>
         else \<lparr>resp = Redirect (Url_login None),
                sess = flash ''Invalid username or password.'' ''danger'' s',
                db_after = ?db1\<rparr>)"
      using a [of "form_get req' ''password''"] pos h(4,6)
      by (simp add: login_def Let_def flash_def session_clear_def)
    with n(2,3) show ?thesis
      by blast
  qed
  from r l d show ?thesis
    by blast
qed

theorem username_stripped_password_verbatim_witness:
  "list_all (\<lambda>i. 0 < i) (map users_id (users example_db)) \<and>
   resp (register example_env carol_registers session_clear example_db) =
     Redirect (Url_login None) \<and>
   map users_username (users carol_db) = [''alice'', ''bob'', ''carol''] \<and>
   users_password_hash (last (users carol_db)) = ''plain$pw789'' \<and>
   sess (login example_env (post [(''username'', ''carol''), (''password'', ''pw789'')])
           bob_session carol_db) =
     \<lparr>session_user_id = Some 3, session_username = Some ''carol'',
      session_other = Map.empty,
      session_flashes = [(''success'', ''Logged in successfully.'')]\<rparr> \<and>
   login example_env (post [(''username'', ''carol''), (''password'', '' pw789'')])
           bob_session carol_db =
     \<lparr>resp = Redirect (Url_login None),
      sess = flash ''Invalid username or password.'' ''danger'' bob_session,
      db_after = carol_db\<rparr>"
proof -
  let ?good = "post [(''username'', ''carol''), (''password'', ''pw789'')]"
  let ?bad = "post [(''username'', ''carol''), (''password'', '' pw789'')]"
  have p: "list_all (\<lambda>i. 0 < i) (map users_id (users example_db))"
    by (simp add: example_db_def)
  have m: "request_method carol_registers = POST" "request_method ?good = POST"
      "request_method ?bad = POST"
    by (simp_all add: carol_registers_def post_def)
  have f: "form_get carol_registers ''username'' = '' carol ''"
      "form_get carol_registers ''password'' = ''pw789''"
      "form_get carol_registers ''password2'' = ''pw789''"
      "form_get ?good ''username'' = ''carol''" "form_get ?good ''password'' = ''pw789''"
      "form_get ?bad ''username'' = ''carol''" "form_get ?bad ''password'' = '' pw789''"
    by (simp_all add: carol_registers_def post_def form_get_def)
  have r: "register example_env carol_registers session_clear example_db =
             \<lparr>resp = Redirect (Url_login None),
              sess = flash ''Account created. Please login.'' ''success'' session_clear,
              db_after = snd (create_user example_env example_db ''carol'' ''pw789'')\<rparr>"
    by (simp add: register_def m f strip_examples Let_def create_user_def example_db_def)
  have a: "resp (register example_env carol_registers session_clear example_db) =
             Redirect (Url_login None)"
    by (simp add: r)
  have n: "map users_username (users carol_db) = [''alice'', ''bob'', ''carol'']"
    unfolding carol_db_def r by (simp add: create_user_def example_db_def)
  have i: "users_id (last (users carol_db)) = 3"
    unfolding carol_db_def r
    by (simp add: create_user_def example_db_def next_rowid_example)
  have s1: "strip (form_get ?good ''username'') = strip (form_get carol_registers ''username'')"
   and s2: "strip (form_get ?bad ''username'') = strip (form_get carol_registers ''username'')"
    by (simp_all add: f strip_examples)
  have g: "generate_password_hash example_env (salt example_env) ''pw789'' = ''plain$pw789''"
      "check_password_hash example_env ''plain$pw789'' ''pw789''"
      "\<not> check_password_hash example_env ''plain$pw789'' '' pw789''"
    by (simp_all add: example_env_def)
  have x: "args ?good ''next'' = None"
    by (simp add: post_def)
  from username_stripped_password_verbatim
         [of example_env carol_registers "[]" session_clear example_db example_env ?good
             bob_session example_db]
       username_stripped_password_verbatim
         [of example_env carol_registers "[]" session_clear example_db example_env ?bad
             bob_session example_db]
       p m a s1 s2 n
  show ?thesis
    by (simp add: f g i x strip_examples carol_db_def [symmetric])
qed

section \<open>The listing order\<close>

lemma listed_before_total: "\<not> listed_before x y \<Longrightarrow> listed_before y x"
  by (auto simp: listed_before_def)

lemma listed_before_trans: "listed_before x y \<Longrightarrow> listed_before y z \<Longrightarrow> listed_before x z"
  by (auto simp: listed_before_def)

lemma set_order_insert: "set (order_insert x ys) = insert x (set ys)"
  by (induction ys) auto

lemma set_order_by: "set (order_by xs) = set xs"
  by (induction xs) (simp_all add: set_order_insert)

lemma length_order_insert: "length (order_insert x ys) = Suc (length ys)"
  by (induction ys) auto

lemma length_order_by: "length (order_by xs) = length xs"
  by (induction xs) (simp_all add: length_order_insert)

lemma distinct_order_insert: "distinct (order_insert x ys) = (x \<notin> set ys \<and> distinct ys)"
  by (induction ys) (auto simp: set_order_insert)

lemma distinct_order_by: "distinct (order_by xs) = distinct xs"
  by (induction xs) (simp_all add: distinct_order_insert set_order_by)

lemma sorted_order_insert:
  "sorted_wrt listed_before ys \<Longrightarrow> sorted_wrt listed_before (order_insert x ys)"
proof (induction ys)
  case Nil
  show ?case by simp
next
  case (Cons y ys)
  show ?case
  proof (cases "listed_before x y")
    case True
    then have "\<forall>z \<in> set (y # ys). listed_before x z"
      using Cons.prems by (auto intro: listed_before_trans)
    then show ?thesis
      using True Cons.prems by simp
  next
    case False
    then have "listed_before y x"
      by (rule listed_before_total)
    then have "\<forall>z \<in> set (order_insert x ys). listed_before y z"
      using Cons.prems by (simp add: set_order_insert)
    then show ?thesis
      using False Cons by simp
  qed
qed

lemma sorted_order_by: "sorted_wrt listed_before (order_by xs)"
  by (induction xs) (simp_all add: sorted_order_insert)

lemma set_select_todos:
  "set (select_todos uid search db) \<subseteq> {r \<in> set (todos db). todos_user_id r = uid}"
  by (auto simp: select_todos_def set_order_by Let_def)

lemma select_todos_all:
  "set (select_todos uid [] db) = {r \<in> set (todos db). todos_user_id r = uid}"
  by (auto simp: select_todos_def set_order_by)

lemma sorted_select_todos: "sorted_wrt listed_before (select_todos uid search db)"
  by (simp add: select_todos_def sorted_order_by Let_def)

lemma dashboard_logged_in:
  "session_user_id s = Some uid \<Longrightarrow>
     dashboard req s db =
       \<lparr>resp = (if like_raises uid (strip (args_get req ''q'')) db
                 then Raise_OperationalError
                 else Render_dashboard (select_todos uid (strip (args_get req ''q'')) db)
                        (strip (args_get req ''q''))),
        sess = s, db_after = db\<rparr>"
  by (simp add: dashboard_def login_required_Some dashboard_body_def Let_def)

lemma like_raises_Nil: "\<not> like_raises uid [] db"
  by (simp add: like_raises_def)

section \<open>Ownership\<close>

lemma find_foreign_None:
  assumes "distinct (map todos_id xs)" "t \<in> set xs" "todos_user_id t \<noteq> b"
  shows "find (\<lambda>r. todos_id r = todos_id t \<and> todos_user_id r = b) xs = None"
proof -
  have "\<not> (todos_id r = todos_id t \<and> todos_user_id r = b)" if "r \<in> set xs" for r
    using same_id_same_row [OF assms(1,2) that] assms(3) by auto
  then show ?thesis
    by (simp add: find_None_iff)
qed

lemma add_task_appends:
  assumes "session_user_id sA = Some a" "request_method reqA = POST"
    "strip (form_get reqA ''title'') \<noteq> []" "a \<in> set (map users_id (users db))"
  shows "\<exists>r. todos (db_after (add_task e reqA sA db)) = todos db @ [r] \<and>
             todos_user_id r = a \<and> todos_id r \<notin> set (map todos_id (todos db))"
  using assms next_rowid_fresh [of "map todos_id (todos db)"]
  by (simp add: add_task_def login_required_Some add_task_body_def Let_def)

text \<open>
  C1. Let \<open>t\<close> be a task in the table (ids unique, as the primary key has them) whose owner
  is not the user \<open>b\<close> of the session. The dashboard of \<open>b\<close> renders
  \<open>select_todos b\<close> of the stripped query (or raises, when the pattern is too long for
  the engine), and \<open>t\<close> is in no such selection, whatever the query. \<open>edit_task\<close> and
  \<open>toggle_task\<close> on the id of \<open>t\<close> under that session abort with 404 (an id that does
  not fit 64 bits, which no row of the engine has, raises \<open>OverflowError\<close> instead), and
  \<open>delete_task\<close> removes nothing: in all three cases the database afterwards is the
  database before, so \<open>t\<close> is as it was. And a task that a user \<open>a\<close> adds is appended
  with owner \<open>a\<close> and a fresh id.
\<close>

theorem ownership_isolation:
  assumes "distinct (map todos_id (todos db))"
    and "t \<in> set (todos db)"
    and "session_user_id sB = Some b"
    and "todos_user_id t \<noteq> b"
  shows "dashboard req sB db =
           \<lparr>resp = (if like_raises b (strip (args_get req ''q'')) db
                     then Raise_OperationalError
                     else Render_dashboard (select_todos b (strip (args_get req ''q'')) db)
                            (strip (args_get req ''q''))),
            sess = sB, db_after = db\<rparr> \<and>
         t \<notin> set (select_todos b search db) \<and>
         edit_task (todos_id t) req sB db =
           \<lparr>resp = (if sqlite_int_ok (todos_id t) then Abort_404 else Raise_OverflowError),
            sess = sB, db_after = db\<rparr> \<and>
         toggle_task (todos_id t) req sB db =
           \<lparr>resp = (if sqlite_int_ok (todos_id t) then Abort_404 else Raise_OverflowError),
            sess = sB, db_after = db\<rparr> \<and>
         db_after (delete_task (todos_id t) req sB db) = db \<and>
         (session_user_id sA = Some a \<and> request_method reqA = POST \<and>
          strip (form_get reqA ''title'') \<noteq> [] \<and> a \<in> set (map users_id (users db)) \<longrightarrow>
            (\<exists>r. todos (db_after (add_task e reqA sA db)) = todos db @ [r] \<and>
                 todos_user_id r = a \<and> todos_id r \<notin> set (map todos_id (todos db))))"
proof -
  have n: "find (\<lambda>r. todos_id r = todos_id t \<and> todos_user_id r = b) (todos db) = None"
    using assms(1,2,4) by (rule find_foreign_None)
  have l: "t \<notin> set (select_todos b search db)"
    using set_select_todos [of b search db] assms(4) by auto
  have e: "edit_task (todos_id t) req sB db =
           \<lparr>resp = (if sqlite_int_ok (todos_id t) then Abort_404 else Raise_OverflowError),
            sess = sB, db_after = db\<rparr>"
    using assms(3) n by (simp add: edit_task_def login_required_Some edit_task_body_def)
  have g: "toggle_task (todos_id t) req sB db =
           \<lparr>resp = (if sqlite_int_ok (todos_id t) then Abort_404 else Raise_OverflowError),
            sess = sB, db_after = db\<rparr>"
    using assms(3) n by (simp add: toggle_task_def login_required_Some toggle_task_body_def)
  have "filter (\<lambda>r. \<not> (todos_id r = todos_id t \<and> todos_user_id r = b)) (todos db) = todos db"
    using n by (simp add: find_None_iff)
  then have d: "db_after (delete_task (todos_id t) req sB db) = db"
    using assms(3) by (simp add: delete_task_def login_required_Some delete_task_body_def)
  from dashboard_logged_in [OF assms(3)] l e g d add_task_appends [of sA a reqA db e]
  show ?thesis
    by simp
qed

theorem ownership_isolation_witness:
  "distinct (map todos_id (todos example_db)) \<and> T1 \<in> set (todos example_db) \<and>
   session_user_id bob_session = Some 2 \<and> todos_user_id T1 = 1 \<and>
   sqlite_int_ok (todos_id T1) \<and>
   resp (dashboard (get []) bob_session example_db) = Render_dashboard [T4] [] \<and>
   select_todos 2 ''milk'' example_db = [] \<and>
   edit_task 1 (post [(''title'', ''mine now'')]) bob_session example_db =
     \<lparr>resp = Abort_404, sess = bob_session, db_after = example_db\<rparr> \<and>
   toggle_task 1 (post []) bob_session example_db =
     \<lparr>resp = Abort_404, sess = bob_session, db_after = example_db\<rparr> \<and>
   db_after (delete_task 1 (post []) bob_session example_db) = example_db \<and>
   map todos_user_id
     (todos (db_after (add_task example_env (post [(''title'', ''Buy milk'')])
                         alice_session example_db))) = [1, 1, 1, 2, 1]"
proof -
  have a: "map todos_user_id
     (todos (db_after (add_task example_env (post [(''title'', ''Buy milk'')])
                         alice_session example_db))) = [1, 1, 1, 2, 1]"
    by (simp add: add_task_def login_required_Some [OF alice_logged_in] add_task_body_def
        Let_def post_def form_get_def strip_def lstrip_def rstrip_def py_isspace_def
        example_db_def T1_def T2_def T3_def T4_def)
  have m: "T1 \<in> set (todos example_db)"
    by (simp add: example_db_def)
  have o: "todos_user_id T1 \<noteq> 2" and o': "todos_user_id T1 = 1" and i: "todos_id T1 = 1"
    by (simp_all add: T1_def)
  have l: "select_todos 2 [] example_db = [T4]"
    by (simp add: select_todos_def example_db_def T1_def T2_def T3_def T4_def)
  have k: "select_todos 2 ''milk'' example_db = []"
    by code_simp
  have q: "strip (args_get (get []) ''q'') = []"
    by (simp add: get_def args_get_def strip_def lstrip_def rstrip_def)
  have r: "sqlite_int_ok (todos_id T1)"
    by (simp add: i sqlite_int_ok_def)
  from ownership_isolation [OF example_db_ids m bob_logged_in o, of "get []" "''milk''"]
       ownership_isolation [OF example_db_ids m bob_logged_in o, of "post [(''title'', ''mine now'')]" "''milk''"]
       ownership_isolation [OF example_db_ids m bob_logged_in o, of "post []" "''milk''"]
       example_db_ids m bob_logged_in o' a r
  show ?thesis
    by (simp add: i l k q like_raises_Nil)
qed

section \<open>Invariants\<close>

lemma db_ok_empty: "db_ok \<lparr>users = [], todos = []\<rparr>"
  by (simp add: db_ok_def)

lemma db_ok_create_user:
  assumes "db_ok db"
  shows "db_ok (snd (create_user e db username password))"
proof (cases "username \<in> set (map users_username (users db))")
  case True
  then show ?thesis using assms by (simp add: create_user_def)
next
  case False
  have p: "list_all (\<lambda>i. 0 < i) (map users_id (users db))"
    using assms by (simp add: db_ok_def list_all_iff)
  have "0 < next_rowid (map users_id (users db))"
    using p by (rule next_rowid_positive)
  moreover have "next_rowid (map users_id (users db)) \<notin> set (map users_id (users db))"
    by (rule next_rowid_fresh)
  ultimately show ?thesis
    using assms False by (simp add: create_user_def db_ok_def)
qed

lemma db_ok_register: "db_ok db \<Longrightarrow> db_ok (db_after (register e req s db))"
  using db_ok_create_user [of db e "strip (form_get req ''username'')" "form_get req ''password''"]
  by (auto simp: register_def Let_def split: prod.splits)

lemma db_ok_login: "db_ok db \<Longrightarrow> db_ok (db_after (login e req s db))"
  by (simp add: login_def Let_def split: option.splits)

lemma db_ok_logout: "db_ok db \<Longrightarrow> db_ok (db_after (logout s db))"
  by (simp add: logout_def)

lemma db_after_login_required:
  assumes "\<And>uid. P (db_after (fn uid req s db))" and "P db"
  shows "P (db_after (login_required fn req s db))"
  using assms by (simp add: login_required_def split: option.splits)

lemma db_ok_dashboard: "db_ok db \<Longrightarrow> db_ok (db_after (dashboard req s db))"
  unfolding dashboard_def
  by (rule db_after_login_required) (simp_all add: dashboard_body_def Let_def)

lemma db_ok_add_task:
  assumes "db_ok db"
  shows "db_ok (db_after (add_task e req s db))"
  unfolding add_task_def
proof (rule db_after_login_required)
  fix uid
  have p: "list_all (\<lambda>i. 0 < i) (map todos_id (todos db))"
    using assms by (simp add: db_ok_def list_all_iff)
  have "0 < next_rowid (map todos_id (todos db))"
    using p by (rule next_rowid_positive)
  moreover have "next_rowid (map todos_id (todos db)) \<notin> set (map todos_id (todos db))"
    by (rule next_rowid_fresh)
  ultimately show "db_ok (db_after (add_task_body e uid req s db))"
    using assms by (simp add: add_task_body_def Let_def db_ok_def)
qed (rule assms)

lemma ids_after_update:
  "map todos_id (map (\<lambda>x. if P x
       then x\<lparr>todos_title := a, todos_description := b, todos_due_date := c, todos_done := d\<rparr>
       else x) xs) = map todos_id xs"
  by (induction xs) auto

lemma db_ok_edit_task:
  assumes "db_ok db"
  shows "db_ok (db_after (edit_task task_id req s db))"
  unfolding edit_task_def
proof (rule db_after_login_required)
  fix uid
  show "db_ok (db_after (edit_task_body task_id uid req s db))"
    using assms
    by (auto simp: edit_task_body_def Let_def db_ok_def ids_after_update list_all_iff
        simp del: map_map split: option.splits)
qed (rule assms)

lemma db_ok_delete_task:
  assumes "db_ok db"
  shows "db_ok (db_after (delete_task task_id req s db))"
  unfolding delete_task_def
proof (rule db_after_login_required)
  fix uid
  show "db_ok (db_after (delete_task_body task_id uid req s db))"
    using assms
    by (auto simp: delete_task_body_def db_ok_def distinct_map_filter list_all_iff)
qed (rule assms)

lemma db_ok_toggle_task:
  assumes "db_ok db"
  shows "db_ok (db_after (toggle_task task_id req s db))"
  unfolding toggle_task_def
proof (rule db_after_login_required)
  fix uid
  show "db_ok (db_after (toggle_task_body task_id uid req s db))"
    using assms
    by (auto simp: toggle_task_body_def Let_def db_ok_def ids_after_set_done list_all_iff
        simp del: map_map split: option.splits)
qed (rule assms)

lemma alice_listing: "select_todos 1 [] example_db = [T3, T1, T2]"
  by code_simp

lemma no_query: "strip (args_get (get []) ''q'') = []"
  by (simp add: get_def args_get_def strip_def lstrip_def rstrip_def)

section \<open>The text of a creation time orders as the time\<close>

lemma length_zero_padded: "length (zero_padded n x) = n"
  by (induction n arbitrary: x) simp_all

lemma append_less_append:
  "length a = length a' \<Longrightarrow> (a @ b < a' @ b') = (a < a' \<or> (a = a' \<and> b < (b' :: 'a :: linorder list)))"
  by (induction a a' rule: list_induct2) auto

lemma digit_values:
  "digit 0 = CHR ''0''" "digit 1 = CHR ''1''" "digit 2 = CHR ''2''" "digit 3 = CHR ''3''"
  "digit 4 = CHR ''4''" "digit 5 = CHR ''5''" "digit 6 = CHR ''6''" "digit 7 = CHR ''7''"
  "digit 8 = CHR ''8''" "digit 9 = CHR ''9''"
  by (simp_all add: digit_def)

lemma below_ten:
  assumes "(k :: nat) < 10"
  shows "k = 0 \<or> k = 1 \<or> k = 2 \<or> k = 3 \<or> k = 4 \<or> k = 5 \<or> k = 6 \<or> k = 7 \<or> k = 8 \<or> k = 9"
  using assms by arith

lemma of_char_digit: "k < 10 \<Longrightarrow> of_char (digit k) = 48 + k"
  using below_ten [of k] digit_values(2) by (auto simp: digit_values)

lemma digit_less: "a < 10 \<Longrightarrow> b < 10 \<Longrightarrow> (digit a < digit b) = (a < b)"
  by (simp add: less_char_def of_char_digit)

lemma div_mod_less_iff:
  "((x :: nat) div 10 < y div 10 \<or> (x div 10 = y div 10 \<and> x mod 10 < y mod 10)) = (x < y)"
proof -
  define a b c d where "a = x div 10" and "b = x mod 10" and "c = y div 10" and "d = y mod 10"
  have "x = 10 * a + b" "y = 10 * c + d" "b < 10" "d < 10"
    by (simp_all add: a_def b_def c_def d_def)
  then have "(a < c \<or> (a = c \<and> b < d)) = (x < y)"
    by auto
  then show ?thesis
    by (simp only: a_def b_def c_def d_def)
qed

lemma zero_padded_less:
  "x < 10 ^ n \<Longrightarrow> y < 10 ^ n \<Longrightarrow> (zero_padded n x < zero_padded n y) = (x < y)"
proof (induction n arbitrary: x y)
  case 0
  then show ?case by simp
next
  case (Suc n)
  have b: "x div 10 < 10 ^ n" "y div 10 < 10 ^ n"
    using Suc.prems by (simp_all add: less_mult_imp_div_less mult.commute)
  have l: "(zero_padded n (x div 10) < zero_padded n (y div 10)) = (x div 10 < y div 10)"
    using b by (rule Suc.IH)
  have g: "(zero_padded n (y div 10) < zero_padded n (x div 10)) = (y div 10 < x div 10)"
    using b(2,1) by (rule Suc.IH)
  have e: "(zero_padded n (x div 10) = zero_padded n (y div 10)) = (x div 10 = y div 10)"
    using l g by (metis less_irrefl linorder_neqE_nat)
  have "(zero_padded (Suc n) x < zero_padded (Suc n) y) =
          (x div 10 < y div 10 \<or> (x div 10 = y div 10 \<and> x mod 10 < y mod 10))"
    by (simp add: append_less_append length_zero_padded l e digit_less)
  also have "\<dots> = (x < y)"
    by (rule div_mod_less_iff)
  finally show ?case .
qed

lemma zero_padded_eq:
  assumes "x < 10 ^ n" "y < 10 ^ n"
  shows "(zero_padded n x = zero_padded n y) = (x = y)"
  using zero_padded_less [OF assms] zero_padded_less [OF assms(2,1)]
  by (metis less_irrefl linorder_neqE_nat)

lemma segment_less:
  assumes "x < 10 ^ n" "y < 10 ^ n"
  shows "(zero_padded n x @ r < zero_padded n y @ r') = (x < y \<or> (x = y \<and> r < r'))"
  by (simp add: append_less_append length_zero_padded zero_padded_less [OF assms]
      zero_padded_eq [OF assms])

lemma isoformat_less:
  assumes "valid_datetime a" "valid_datetime b"
  shows "(isoformat a < isoformat b) = (time_fields a < time_fields b)"
proof -
  have y: "year a < 10 ^ 4" "year b < 10 ^ 4"
    and m: "month a < 10 ^ 2" "month b < 10 ^ 2"
    and d: "day a < 10 ^ 2" "day b < 10 ^ 2"
    and h: "hour a < 10 ^ 2" "hour b < 10 ^ 2"
    and mi: "minute a < 10 ^ 2" "minute b < 10 ^ 2"
    and s: "second a < 10 ^ 2" "second b < 10 ^ 2"
    and us: "microsecond a < 1000000" "microsecond b < 1000000"
    using assms by (simp_all add: valid_datetime_def)
  have us6: "microsecond a < 10 ^ 6" "microsecond b < 10 ^ 6"
    using us by simp_all
  show ?thesis
    unfolding isoformat_def time_fields_def append_Cons append_Nil
      segment_less [OF y] segment_less [OF m] segment_less [OF d] segment_less [OF h]
      segment_less [OF mi] segment_less [OF s] Cons_less_Cons
    by (simp add: zero_padded_less [OF us6])
qed

lemma isoformat_inject:
  assumes "valid_datetime a" "valid_datetime b"
  shows "(isoformat a = isoformat b) = (time_fields a = time_fields b)"
  using isoformat_less [OF assms] isoformat_less [OF assms(2,1)]
  by (metis less_irrefl linorder_neqE)

lemma isoformat_le:
  assumes "valid_datetime a" "valid_datetime b"
  shows "(isoformat a \<le> isoformat b) = (time_fields a \<le> time_fields b)"
  by (simp add: le_less isoformat_less [OF assms] isoformat_inject [OF assms])

lemma zero_padded_2: "zero_padded 2 x = [digit (x div 10 mod 10), digit (x mod 10)]"
proof -
  have "(2 :: nat) = Suc (Suc 0)" by simp
  then show ?thesis by (simp only: zero_padded.simps append_Nil append_Cons)
qed

lemma zero_padded_4:
  "zero_padded 4 x =
     [digit (x div 10 div 10 div 10 mod 10), digit (x div 10 div 10 mod 10),
      digit (x div 10 mod 10), digit (x mod 10)]"
proof -
  have "(4 :: nat) = Suc (Suc (Suc (Suc 0)))" by simp
  then show ?thesis by (simp only: zero_padded.simps append_Nil append_Cons)
qed

lemma zero_padded_6:
  "zero_padded 6 x =
     [digit (x div 10 div 10 div 10 div 10 div 10 mod 10),
      digit (x div 10 div 10 div 10 div 10 mod 10),
      digit (x div 10 div 10 div 10 mod 10), digit (x div 10 div 10 mod 10),
      digit (x div 10 mod 10), digit (x mod 10)]"
proof -
  have "(6 :: nat) = Suc (Suc (Suc (Suc (Suc (Suc 0)))))" by simp
  then show ?thesis by (simp only: zero_padded.simps append_Nil append_Cons)
qed

lemma digit_one: "digit (Suc 0) = CHR ''1''"
  using digit_values(2) by simp

lemmas isoformat_eval =
  isoformat_def zero_padded_2 zero_padded_4 zero_padded_6 digit_values digit_one

lemma created_texts:
  "todos_created_at T1 = isoformat T1_created"
  "todos_created_at T2 = isoformat T2_created"
  "todos_created_at T3 = isoformat T3_created"
  by (simp_all add: T1_def T2_def T3_def T1_created_def T2_created_def T3_created_def
      isoformat_eval)

lemma created_valid:
  "valid_datetime T1_created" "valid_datetime T2_created" "valid_datetime T3_created"
  by (simp_all add: valid_datetime_def T1_created_def T2_created_def T3_created_def)

lemma add_task_created_at:
  assumes "session_user_id s = Some uid" "request_method req = POST"
    "strip (form_get req ''title'') \<noteq> []" "uid \<in> set (map users_id (users db))"
  shows "\<exists>r. todos (db_after (add_task e req s db)) = todos db @ [r] \<and>
             todos_created_at r = isoformat (utcnow e) \<and> todos_done r = 0"
  using assms
  by (simp add: add_task_def login_required_Some add_task_body_def Let_def)

section \<open>Order of the listing\<close>

text \<open>
  C4. For a logged-in user the dashboard renders \<open>select_todos\<close> of the stripped query
  (or raises, when the pattern of a search is too long for the engine); without a query
  that is all rows of the user, each once. In every such selection, for
  positions \<open>i < j\<close>: \<open>done\<close> at \<open>i\<close> is at most \<open>done\<close> at \<open>j\<close>; when the two are equal,
  \<open>created_at\<close> at \<open>j\<close> is at most \<open>created_at\<close> at \<open>i\<close>, and when these texts are the
  ISO texts of two valid times, the time at \<open>j\<close> is not later than the time at \<open>i\<close>
  (creation time descending in each group); and when \<open>done\<close> is 0 or 1 throughout the
  table, the row at \<open>i\<close> is incomplete or the row at \<open>j\<close> is complete, so no complete task
  precedes an incomplete one. A task that is added gets the ISO text of the clock's reading
  as \<open>created_at\<close> and \<open>done = 0\<close>. The example of the specification is the witness: T1
  (open, first), T2 (done, second), T3 (open, third) are listed as T3, T1, T2.
\<close>

theorem listing_order:
  assumes "session_user_id s = Some uid"
  shows "resp (dashboard req s db) =
           (if like_raises uid (strip (args_get req ''q'')) db then Raise_OperationalError
            else Render_dashboard (select_todos uid (strip (args_get req ''q'')) db)
                   (strip (args_get req ''q''))) \<and>
         set (select_todos uid [] db) = {r \<in> set (todos db). todos_user_id r = uid} \<and>
         length (select_todos uid [] db) =
           length (filter (\<lambda>r. todos_user_id r = uid) (todos db)) \<and>
         (\<forall>i j. i < j \<and> j < length (select_todos uid search db) \<longrightarrow>
            todos_done (select_todos uid search db ! i) \<le>
              todos_done (select_todos uid search db ! j) \<and>
            (todos_done (select_todos uid search db ! i) =
               todos_done (select_todos uid search db ! j) \<longrightarrow>
             todos_created_at (select_todos uid search db ! j) \<le>
               todos_created_at (select_todos uid search db ! i) \<and>
             (\<forall>a b. valid_datetime a \<and> valid_datetime b \<and>
                todos_created_at (select_todos uid search db ! i) = isoformat a \<and>
                todos_created_at (select_todos uid search db ! j) = isoformat b \<longrightarrow>
                time_fields b \<le> time_fields a)) \<and>
            ((\<forall>r \<in> set (todos db). todos_done r = 0 \<or> todos_done r = 1) \<longrightarrow>
             todos_done (select_todos uid search db ! i) = 0 \<or>
               todos_done (select_todos uid search db ! j) = 1)) \<and>
         (request_method req' = POST \<and> strip (form_get req' ''title'') \<noteq> [] \<and>
          uid \<in> set (map users_id (users db)) \<longrightarrow>
            (\<exists>r. todos (db_after (add_task e req' s db)) = todos db @ [r] \<and>
                 todos_created_at r = isoformat (utcnow e) \<and> todos_done r = 0))"
proof -
  let ?L = "select_todos uid search db"
  have d: "resp (dashboard req s db) =
           (if like_raises uid (strip (args_get req ''q'')) db then Raise_OperationalError
            else Render_dashboard (select_todos uid (strip (args_get req ''q'')) db)
                   (strip (args_get req ''q'')))"
    by (simp add: dashboard_logged_in [OF assms])
  have n: "length (select_todos uid [] db) =
           length (filter (\<lambda>r. todos_user_id r = uid) (todos db))"
    by (simp add: select_todos_def length_order_by)
  have o: "todos_done (?L ! i) \<le> todos_done (?L ! j) \<and>
           (todos_done (?L ! i) = todos_done (?L ! j) \<longrightarrow>
              todos_created_at (?L ! j) \<le> todos_created_at (?L ! i) \<and>
              (\<forall>a b. valid_datetime a \<and> valid_datetime b \<and>
                 todos_created_at (?L ! i) = isoformat a \<and>
                 todos_created_at (?L ! j) = isoformat b \<longrightarrow>
                 time_fields b \<le> time_fields a)) \<and>
           ((\<forall>r \<in> set (todos db). todos_done r = 0 \<or> todos_done r = 1) \<longrightarrow>
              todos_done (?L ! i) = 0 \<or> todos_done (?L ! j) = 1)"
    if "i < j" "j < length ?L" for i j
  proof -
    have b: "listed_before (?L ! i) (?L ! j)"
      using sorted_select_todos [of uid search db] that
      by (simp add: sorted_wrt_iff_nth_less)
    have "?L ! i \<in> set ?L" "?L ! j \<in> set ?L"
      using that by simp_all
    then have "?L ! i \<in> set (todos db)" "?L ! j \<in> set (todos db)"
      using set_select_todos [of uid search db] by blast+
    then have f: "todos_done (?L ! i) = 0 \<or> todos_done (?L ! i) = 1"
        "todos_done (?L ! j) = 0 \<or> todos_done (?L ! j) = 1"
      if "\<forall>r \<in> set (todos db). todos_done r = 0 \<or> todos_done r = 1"
      using that by blast+
    have le: "todos_done (?L ! i) \<le> todos_done (?L ! j)"
      using b by (auto simp: listed_before_def)
    have tie: "todos_created_at (?L ! j) \<le> todos_created_at (?L ! i)"
      if "todos_done (?L ! i) = todos_done (?L ! j)"
      using b that by (auto simp: listed_before_def)
    have chrono: "time_fields y \<le> time_fields x"
      if "todos_done (?L ! i) = todos_done (?L ! j)" "valid_datetime x" "valid_datetime y"
        "todos_created_at (?L ! i) = isoformat x" "todos_created_at (?L ! j) = isoformat y"
      for x y
      using tie [OF that(1)] isoformat_le [OF that(3,2)] that(4,5) by simp
    have grp: "(\<forall>r \<in> set (todos db). todos_done r = 0 \<or> todos_done r = 1) \<longrightarrow>
              todos_done (?L ! i) = 0 \<or> todos_done (?L ! j) = 1"
      using f le by fastforce
    from le tie chrono grp show ?thesis by blast
  qed
  have c: "\<exists>r. todos (db_after (add_task e req' s db)) = todos db @ [r] \<and>
                 todos_created_at r = isoformat (utcnow e) \<and> todos_done r = 0"
    if "request_method req' = POST" "strip (form_get req' ''title'') \<noteq> []"
       "uid \<in> set (map users_id (users db))"
    using assms that by (rule add_task_created_at)
  from d select_todos_all [of uid db] n o c show ?thesis
    by blast
qed


theorem listing_order_witness:
  "session_user_id alice_session = Some 1 \<and>
   resp (dashboard (get []) alice_session example_db) = Render_dashboard [T3, T1, T2] [] \<and>
   todos_done T1 = 0 \<and> todos_done T2 = 1 \<and> todos_done T3 = 0 \<and>
   valid_datetime T1_created \<and> valid_datetime T2_created \<and> valid_datetime T3_created \<and>
   todos_created_at T1 = isoformat T1_created \<and>
   todos_created_at T2 = isoformat T2_created \<and>
   todos_created_at T3 = isoformat T3_created \<and>
   time_fields T1_created < time_fields T2_created \<and>
   time_fields T2_created < time_fields T3_created \<and>
   todos_done ([T3, T1, T2] ! 0) \<le> todos_done ([T3, T1, T2] ! 2) \<and>
   todos_created_at ([T3, T1, T2] ! 1) \<le> todos_created_at ([T3, T1, T2] ! 0) \<and>
   time_fields T1_created \<le> time_fields T3_created"
proof -
  note t = listing_order [OF alice_logged_in, of "get []" example_db "[]",
      unfolded alice_listing no_query]
  have r: "resp (dashboard (get []) alice_session example_db) = Render_dashboard [T3, T1, T2] []"
    using t [THEN conjunct1] by (simp add: like_raises_Nil)
  have o: "\<forall>i j. i < j \<and> j < length [T3, T1, T2] \<longrightarrow>
            todos_done ([T3, T1, T2] ! i) \<le> todos_done ([T3, T1, T2] ! j) \<and>
            (todos_done ([T3, T1, T2] ! i) = todos_done ([T3, T1, T2] ! j) \<longrightarrow>
             todos_created_at ([T3, T1, T2] ! j) \<le> todos_created_at ([T3, T1, T2] ! i) \<and>
             (\<forall>a b. valid_datetime a \<and> valid_datetime b \<and>
                todos_created_at ([T3, T1, T2] ! i) = isoformat a \<and>
                todos_created_at ([T3, T1, T2] ! j) = isoformat b \<longrightarrow>
                time_fields b \<le> time_fields a))"
    using t by blast
  have d: "todos_done T1 = 0" "todos_done T2 = 1" "todos_done T3 = 0"
    by (simp_all add: T1_def T2_def T3_def)
  have c: "time_fields T1_created < time_fields T2_created"
      "time_fields T2_created < time_fields T3_created"
    by (simp_all add: time_fields_def T1_created_def T2_created_def T3_created_def)
  have o02: "todos_done ([T3, T1, T2] ! 0) \<le> todos_done ([T3, T1, T2] ! 2)"
    using o [rule_format, of 0 2] by simp
  have o01: "todos_created_at ([T3, T1, T2] ! 1) \<le> todos_created_at ([T3, T1, T2] ! 0) \<and>
             (\<forall>a b. valid_datetime a \<and> valid_datetime b \<and>
                todos_created_at ([T3, T1, T2] ! 0) = isoformat a \<and>
                todos_created_at ([T3, T1, T2] ! 1) = isoformat b \<longrightarrow>
                time_fields b \<le> time_fields a)"
    using o [rule_format, of 0 1] d by simp
  then have f: "time_fields T1_created \<le> time_fields T3_created"
    using created_valid created_texts by simp
  from alice_logged_in r d c o02 o01 f created_valid created_texts show ?thesis
    by blast
qed

section \<open>What LIKE matches\<close>

lemma pattern_compare_percent: "pattern_compare ''%'' s"
  by (induction s) simp_all

lemma pattern_compare_tail:
  assumes "CHR ''%'' \<notin> set q" "CHR ''_'' \<notin> set q"
  shows "pattern_compare (q @ ''%'') s = ci_prefix q s"
  using assms
proof (induction q arbitrary: s)
  case Nil
  show ?case by (simp add: pattern_compare_percent)
next
  case (Cons p ps)
  then have ih: "pattern_compare (ps @ ''%'') cs = ci_prefix ps cs" for cs
    by simp
  from Cons.prems have p: "p \<noteq> CHR ''%''" "p \<noteq> CHR ''_''"
    by auto
  show ?case
    using p ih by (cases s) simp_all
qed

lemma pattern_compare_contains:
  assumes "CHR ''%'' \<notin> set q" "CHR ''_'' \<notin> set q"
  shows "pattern_compare (''%'' @ q @ ''%'') s = ci_contains q s"
proof (induction s)
  case Nil
  show ?case
    using pattern_compare_tail [OF assms, of "[]"] by simp
next
  case (Cons c cs)
  show ?case
    using pattern_compare_tail [OF assms, of "c # cs"] Cons.IH by simp
qed

lemma contains_sublist: "contains q s = sublist q s"
  by (induction s) (simp_all add: sublist_Cons_right)

lemma ci_prefix_iff:
  "ci_prefix q s = (\<exists>m. prefix m s \<and> map ascii_lower m = map ascii_lower q)"
proof (induction q s rule: ci_prefix.induct)
  case (1 s)
  show ?case by auto
next
  case (2 p ps)
  show ?case by simp
next
  case (3 p ps c cs)
  show ?case
  proof
    assume "ci_prefix (p # ps) (c # cs)"
    then obtain m where "prefix m cs" "map ascii_lower m = map ascii_lower ps"
      and "ascii_lower p = ascii_lower c"
      using 3 by auto
    then have "prefix (c # m) (c # cs) \<and> map ascii_lower (c # m) = map ascii_lower (p # ps)"
      by simp
    then show "\<exists>m. prefix m (c # cs) \<and> map ascii_lower m = map ascii_lower (p # ps)"
      by blast
  next
    assume "\<exists>m. prefix m (c # cs) \<and> map ascii_lower m = map ascii_lower (p # ps)"
    then obtain m where m: "prefix m (c # cs)" "map ascii_lower m = map ascii_lower (p # ps)"
      by blast
    then obtain m' where "m = c # m'" "prefix m' cs"
      by (cases m) auto
    then show "ci_prefix (p # ps) (c # cs)"
      using m 3 by auto
  qed
qed

lemma ci_contains_iff:
  "ci_contains q s = (\<exists>m. sublist m s \<and> map ascii_lower m = map ascii_lower q)"
proof (induction s)
  case Nil
  show ?case by (cases q) auto
next
  case (Cons c cs)
  show ?case
    by (simp add: Cons.IH ci_prefix_iff sublist_Cons_right del: ci_prefix.simps) blast
qed


lemma c_string_id: "CHR 0x00 \<notin> set s \<Longrightarrow> c_string s = s"
  by (auto simp: c_string_def takeWhile_eq_all_conv)

lemma sql_like_contains:
  assumes "CHR ''%'' \<notin> set q" "CHR ''_'' \<notin> set q" "CHR 0x00 \<notin> set q"
  shows "sql_like (''%'' @ q @ ''%'') s = ci_contains q (c_string s)"
proof -
  have "CHR 0x00 \<notin> set (''%'' @ q @ ''%'')"
    using assms(3) by simp
  then have "c_string (''%'' @ q @ ''%'') = ''%'' @ q @ ''%''"
    by (rule c_string_id)
  then show ?thesis
    by (simp only: sql_like_def pattern_compare_contains [OF assms(1,2)])
qed

lemma utf8_length_pattern: "utf8_length (''%'' @ q @ ''%'') = utf8_length q + 2"
  by (simp add: utf8_length_def)

lemma utf8_length_replicate:
  "utf8_length (replicate n c) = n * (if of_char c < (128 :: nat) then 1 else 2)"
  by (induction n) (simp_all add: utf8_length_def)

lemma like_raises_iff:
  "like_raises uid q db =
     (q \<noteq> [] \<and> 50000 < utf8_length q + 2 \<and> (\<exists>r \<in> set (todos db). todos_user_id r = uid))"
  by (simp only: like_raises_def pattern_too_complex_def utf8_length_pattern list_ex_iff)

lemma select_todos_like:
  assumes "q \<noteq> []" "CHR ''%'' \<notin> set q" "CHR ''_'' \<notin> set q" "CHR 0x00 \<notin> set q"
  shows "select_todos uid q db =
           order_by (filter (\<lambda>r. todos_user_id r = uid \<and>
              (ci_contains q (c_string (todos_title r)) \<or>
               ci_contains q (c_string (todos_description r)))) (todos db))"
  using assms(1) sql_like_contains [OF assms(2,3,4)]
  by (simp add: select_todos_def Let_def)

section \<open>Search\<close>

text \<open>
  C3, as the specification states it, fails: the listing is not restricted to tasks that
  contain the query in the same letter case. Alice's search for "milk" lists her task
  "Buy Milk", whose title and description do not contain "milk" as written.
\<close>

theorem search_case_sensitive_counterexample:
  "resp (dashboard (get [(''q'', ''milk'')]) alice_session example_db) =
     Render_dashboard [T1] ''milk'' \<and>
   todos_title T1 = ''Buy Milk'' \<and> todos_description T1 = ''two litres'' \<and>
   \<not> contains ''milk'' (todos_title T1) \<and> \<not> contains ''milk'' (todos_description T1)"
  by code_simp

text \<open>
  C3, amended. For a logged-in user the dashboard works on the query stripped of
  surrounding white space. When nothing is left of it, the listing is all rows of the
  user. When something is left, and \<open>%\<close>, the stripped query and \<open>%\<close> together take more
  than 50000 bytes in UTF-8, and the user has a row, the request raises
  \<open>OperationalError\<close>. Otherwise the listing is the user's rows whose title or description
  matches that LIKE pattern, pattern and text each read up to its first NUL character; and
  when the stripped query has no \<open>%\<close>, no \<open>_\<close> and no NUL, these are exactly the user's rows
  whose title or description, read up to its first NUL, contains the stripped query as a
  run of consecutive characters up to the case of the letters A to Z, in listing order.
\<close>

theorem search_semantics:
  assumes "session_user_id s = Some uid"
  shows "resp (dashboard req s db) =
           (if like_raises uid (strip (args_get req ''q'')) db then Raise_OperationalError
            else Render_dashboard (select_todos uid (strip (args_get req ''q'')) db)
                   (strip (args_get req ''q''))) \<and>
         like_raises uid q db =
           (q \<noteq> [] \<and> 50000 < utf8_length q + 2 \<and>
            (\<exists>r \<in> set (todos db). todos_user_id r = uid)) \<and>
         select_todos uid [] db = order_by (filter (\<lambda>r. todos_user_id r = uid) (todos db)) \<and>
         (q \<noteq> [] \<longrightarrow>
            select_todos uid q db =
              order_by (filter (\<lambda>r. todos_user_id r = uid \<and>
                 (sql_like (''%'' @ q @ ''%'') (todos_title r) \<or>
                  sql_like (''%'' @ q @ ''%'') (todos_description r))) (todos db))) \<and>
         (q \<noteq> [] \<and> CHR ''%'' \<notin> set q \<and> CHR ''_'' \<notin> set q \<and> CHR 0x00 \<notin> set q \<longrightarrow>
            select_todos uid q db =
              order_by (filter (\<lambda>r. todos_user_id r = uid \<and>
                 (ci_contains q (c_string (todos_title r)) \<or>
                  ci_contains q (c_string (todos_description r))))
                 (todos db)) \<and>
            set (select_todos uid q db) =
              {r \<in> set (todos db). todos_user_id r = uid \<and>
                 ((\<exists>m. sublist m (c_string (todos_title r)) \<and>
                       map ascii_lower m = map ascii_lower q) \<or>
                  (\<exists>m. sublist m (c_string (todos_description r)) \<and>
                       map ascii_lower m = map ascii_lower q))})"
proof -
  have a: "resp (dashboard req s db) =
           (if like_raises uid (strip (args_get req ''q'')) db then Raise_OperationalError
            else Render_dashboard (select_todos uid (strip (args_get req ''q'')) db)
                   (strip (args_get req ''q'')))"
    by (simp add: dashboard_logged_in [OF assms])
  have b: "select_todos uid [] db = order_by (filter (\<lambda>r. todos_user_id r = uid) (todos db))"
    by (simp add: select_todos_def)
  have c: "select_todos uid q db =
              order_by (filter (\<lambda>r. todos_user_id r = uid \<and>
                 (sql_like (''%'' @ q @ ''%'') (todos_title r) \<or>
                  sql_like (''%'' @ q @ ''%'') (todos_description r))) (todos db))"
    if "q \<noteq> []"
    using that by (simp add: select_todos_def Let_def)
  have d: "select_todos uid q db =
              order_by (filter (\<lambda>r. todos_user_id r = uid \<and>
                 (ci_contains q (c_string (todos_title r)) \<or>
                  ci_contains q (c_string (todos_description r))))
                 (todos db))"
    if "q \<noteq> []" "CHR ''%'' \<notin> set q" "CHR ''_'' \<notin> set q" "CHR 0x00 \<notin> set q"
    using that by (rule select_todos_like)
  have e: "set (select_todos uid q db) =
              {r \<in> set (todos db). todos_user_id r = uid \<and>
                 ((\<exists>m. sublist m (c_string (todos_title r)) \<and>
                       map ascii_lower m = map ascii_lower q) \<or>
                  (\<exists>m. sublist m (c_string (todos_description r)) \<and>
                       map ascii_lower m = map ascii_lower q))}"
    if "q \<noteq> []" "CHR ''%'' \<notin> set q" "CHR ''_'' \<notin> set q" "CHR 0x00 \<notin> set q"
    unfolding d [OF that] set_order_by
    by (auto simp: ci_contains_iff)
  from a like_raises_iff [of uid q db] b c d e show ?thesis
    by blast
qed

theorem search_semantics_witness:
  "session_user_id alice_session = Some 1 \<and>
   strip (args_get (get [(''q'', '' MILK '')]) ''q'') = ''MILK'' \<and>
   resp (dashboard (get [(''q'', '' MILK '')]) alice_session example_db) =
     Render_dashboard [T1] ''MILK'' \<and>
   order_by (filter (\<lambda>r. todos_user_id r = 1 \<and>
      (ci_contains ''MILK'' (c_string (todos_title r)) \<or>
       ci_contains ''MILK'' (c_string (todos_description r))))
      (todos example_db)) = [T1] \<and>
   select_todos 1 ''100%'' example_db = [T3] \<and>
   select_todos 1 ''b_y'' example_db = [T1] \<and>
   select_todos 1 (''k'' @ [CHR 0x00] @ ''zzz'') example_db = [T1] \<and>
   resp (dashboard (get [(''q'', ''  '')]) alice_session example_db) =
     Render_dashboard [T3, T1, T2] [] \<and>
   like_raises 1 (replicate 49999 (CHR ''a'')) example_db \<and>
   \<not> like_raises 1 (replicate 49998 (CHR ''a'')) example_db \<and>
   \<not> like_raises 3 (replicate 49999 (CHR ''a'')) example_db"
proof -
  have q: "strip (args_get (get [(''q'', '' MILK '')]) ''q'') = ''MILK''"
    by (simp add: get_def args_get_def strip_def lstrip_def rstrip_def py_isspace_def)
  have w: "strip (args_get (get [(''q'', ''  '')]) ''q'') = []"
    by (simp add: get_def args_get_def strip_def lstrip_def rstrip_def py_isspace_def)
  have n: "''MILK'' \<noteq> [] \<and> CHR ''%'' \<notin> set ''MILK'' \<and> CHR ''_'' \<notin> set ''MILK'' \<and>
           CHR 0x00 \<notin> set ''MILK''"
    by simp
  have f: "order_by (filter (\<lambda>r. todos_user_id r = 1 \<and>
      (ci_contains ''MILK'' (c_string (todos_title r)) \<or>
       ci_contains ''MILK'' (c_string (todos_description r))))
      (todos example_db)) = [T1]"
    by code_simp
  have x: "select_todos 1 ''100%'' example_db = [T3]" "select_todos 1 ''b_y'' example_db = [T1]"
      "select_todos 1 (''k'' @ [CHR 0x00] @ ''zzz'') example_db = [T1]"
    by code_simp+
  have u: "\<exists>r \<in> set (todos example_db). todos_user_id r = 1"
      "\<not> (\<exists>r \<in> set (todos example_db). todos_user_id r = 3)"
    by (simp_all add: example_db_def T1_def T2_def T3_def T4_def)
  have k: "\<not> like_raises 1 ''MILK'' example_db"
    by (simp add: like_raises_iff utf8_length_def)
  have g: "like_raises 1 (replicate 49999 (CHR ''a'')) example_db"
      "\<not> like_raises 1 (replicate 49998 (CHR ''a'')) example_db"
      "\<not> like_raises 3 (replicate 49999 (CHR ''a'')) example_db"
    using u by (simp_all add: like_raises_iff utf8_length_replicate)
  from search_semantics [OF alice_logged_in, of "get [(''q'', '' MILK '')]" example_db "''MILK''"]
       search_semantics [OF alice_logged_in, of "get [(''q'', ''  '')]" example_db "''MILK''"]
       alice_logged_in q w n f x alice_listing k g
  show ?thesis
    by (simp add: like_raises_Nil)
qed

end
